theory Spec2Isabelle
  imports Complex_Main "HOL-Library.Word"
begin

section \<open>JavaScript values used by the photo gallery\<close>

subsection \<open>Strings\<close>

text \<open>
  A JavaScript string is a sequence of 16-bit code units. \<open>js\<close> embeds a literal of the
  source text.
\<close>

type_synonym cu = "16 word"
type_synonym jsstring = "cu list"

definition js :: "string \<Rightarrow> jsstring" where
  "js s = map of_char s"

text \<open>\<open>String.prototype.startsWith\<close>.\<close>

definition startsWith :: "jsstring \<Rightarrow> jsstring \<Rightarrow> bool" where
  "startsWith s p = (take (length p) s = p)"

text \<open>
  Integers that a Number carries exactly (below \<open>2^53\<close>): \<open>File.size\<close>, \<open>Date.now()\<close>
  and the numeric fields of a stored record. Such a Number prints as its decimal digits.
\<close>

type_synonym safe = "53 word"

fun show_nat :: "nat \<Rightarrow> jsstring" where
  "show_nat n = (if n < 10 then [of_nat (48 + n)]
                 else show_nat (n div 10) @ [of_nat (48 + n mod 10)])"

definition is_digit :: "cu \<Rightarrow> bool" where
  "is_digit c = (0x30 \<le> c \<and> c \<le> 0x39)"

subsection \<open>Numbers\<close>

text \<open>
  A Number is NaN, an infinity, or a finite binary64 value, which is carried by its exact
  rational value. The operations \<open>formatBytes\<close> applies are exact on it: the comparison with
  1024, the division of a value of at least 1024 by the power of two 1024, and
  \<open>toFixed\<close>, which ECMAScript defines on the mathematical value.
\<close>

datatype number = Finite rat | NaN | PosInfinity | NegInfinity

fun isFinite :: "number \<Rightarrow> bool" where
  "isFinite (Finite v) = True"
| "isFinite NaN = False"
| "isFinite PosInfinity = False"
| "isFinite NegInfinity = False"

text \<open>
  The conversion of a mathematical value \<open>y \<ge> 2^52\<close> to binary64: 53 significant bits,
  round to nearest, ties to even; \<open>None\<close> is the overflow to \<open>+Infinity\<close>.
\<close>

fun bit_length :: "nat \<Rightarrow> nat" where
  "bit_length n = (if n = 0 then 0 else Suc (bit_length (n div 2)))"

definition round_half_even :: "rat \<Rightarrow> int" where
  "round_half_even y = (let f = \<lfloor>y\<rfloor>; r = y - of_int f in
     if r < 1 / 2 then f else if 1 / 2 < r then f + 1 else if even f then f else f + 1)"

definition binary64 :: "rat \<Rightarrow> rat option" where
  "binary64 y = (let e = bit_length (nat \<lfloor>y\<rfloor>) - 1; ulp = 2 ^ (e - 52);
                     r = of_int (round_half_even (y / ulp)) * ulp
                 in if r < 2 ^ 1024 then Some r else None)"

text \<open>
  The Number value of a mathematical value in the whole range: the binary64 value nearest
  to it, ties to the even significand. The least significant bit has the exponent of the
  value less 52, and at least \<open>-1074\<close> (the subnormal values); a result of \<open>2^1024\<close> or more
  is an infinity. \<open>floor_log2\<close> is the exponent \<open>e\<close> of a positive value \<open>a\<close>, the integer
  with \<open>2^e \<le> a < 2^(e+1)\<close>.
\<close>

definition floor_log2 :: "rat \<Rightarrow> int" where
  "floor_log2 a = (if 1 \<le> a then int (bit_length (nat \<lfloor>a\<rfloor>)) - 1
                   else - int (bit_length (nat (\<lceil>1 / a\<rceil> - 1))))"

definition number_value :: "rat \<Rightarrow> number" where
  "number_value x = (if x = 0 then Finite 0 else
     let a = \<bar>x\<bar>; e = max (floor_log2 a) (- 1022); ulp = 2 powi (e - 52);
         r = of_int (round_half_even (a / ulp)) * ulp
     in if 2 ^ 1024 \<le> r then (if x < 0 then NegInfinity else PosInfinity)
        else Finite (if x < 0 then - r else r))"

text \<open>
  \<open>Number::toString\<close> in radix 10 at a value \<open>x \<ge> 10^21\<close>, the only range in which
  \<open>toFixed\<close> calls it. ECMAScript takes integers \<open>n\<close>, \<open>k\<close>, \<open>s\<close> with
  \<open>10^(k-1) \<le> s < 10^k\<close>, the Number value of \<open>s * 10^(n-k)\<close> being \<open>x\<close>, and \<open>k\<close> as small
  as possible; here \<open>n > 21\<close>, so the result is in exponential notation. Seventeen
  significant digits determine a binary64 value, so the search stops there.
\<close>

definition candidates :: "rat \<Rightarrow> nat \<Rightarrow> nat \<Rightarrow> (nat \<times> nat) list" where
  "candidates x n k = (let p = 10 ^ (n - k); s0 = nat \<lfloor>x / p\<rfloor> in
     map (\<lambda>s. (s, n))
       (filter (\<lambda>s. 10 ^ (k - 1) \<le> s \<and> s < 10 ^ k \<and> binary64 (of_nat s * p) = Some x)
          [s0, s0 + 1]))"

definition closest :: "rat \<Rightarrow> nat \<Rightarrow> (nat \<times> nat) list \<Rightarrow> (nat \<times> nat) option" where
  "closest x k cs = (case cs of
       [] \<Rightarrow> None
     | c # cs' \<Rightarrow> Some (foldl (\<lambda>b a.
          if \<bar>of_nat (fst a) * 10 ^ (snd a - k) - x\<bar> < \<bar>of_nat (fst b) * 10 ^ (snd b - k) - x\<bar>
          then a else b) c cs'))"

fun shortest :: "rat \<Rightarrow> nat \<Rightarrow> nat list \<Rightarrow> nat \<times> nat \<times> nat" where
  "shortest x n0 [] = (nat \<lfloor>x / 10 ^ (n0 - 17) + 1 / 2\<rfloor>, n0, 17)"
| "shortest x n0 (k # ks) =
     (case closest x k (candidates x n0 k @ candidates x (n0 + 1) k) of
        Some (s, n) \<Rightarrow> (s, n, k)
      | None \<Rightarrow> shortest x n0 ks)"

definition Number_toString :: "rat option \<Rightarrow> jsstring" where
  "Number_toString v = (case v of
       None \<Rightarrow> js ''Infinity''
     | Some x \<Rightarrow>
        (case shortest x (length (show_nat (nat \<lfloor>x\<rfloor>))) [1..<17] of (s, n, k) \<Rightarrow>
           (let d = show_nat s; e = show_nat (n - 1) in
            if k = 1 then d @ js ''e+'' @ e
            else take 1 d @ js ''.'' @ drop 1 d @ js ''e+'' @ e)))"

text \<open>
  \<open>Number.prototype.toFixed\<close> at a finite value, with \<open>f\<close> fraction digits: the sign, then
  either \<open>ToString\<close> of the magnitude (at \<open>10^21\<close> and above) or the integer closest to
  \<open>x * 10^f\<close> (the larger one of two) with a point before its last \<open>f\<close> digits.
\<close>

definition toFixed :: "rat \<Rightarrow> nat \<Rightarrow> jsstring" where
  "toFixed v f = (let s = (if v < 0 then js ''-'' else []); x = \<bar>v\<bar> in
     if 10 ^ 21 \<le> x then s @ Number_toString (binary64 x)
     else let n = nat \<lfloor>x * 10 ^ f + 1 / 2\<rfloor>; m = show_nat n in
       if f = 0 then s @ m
       else let m' = (if length m \<le> f then replicate (f + 1 - length m) 48 @ m else m);
                k = length m'
            in s @ take (k - f) m' @ js ''.'' @ drop (k - f) m')"

subsection \<open>The byte-size formatter\<close>

text \<open>
  \<open>formatBytes\<close> is the same function in the browser-only component and in the
  server-backed one. \<open>scale\<close> is its loop, on the pair of \<open>v\<close> and \<open>i\<close>; \<open>i\<close> counts the
  divisions.
\<close>

definition units :: "jsstring list" where
  "units = [js ''B'', js ''KB'', js ''MB'', js ''GB'']"

function scale :: "rat \<Rightarrow> nat \<Rightarrow> rat \<times> nat" where
  "scale v i = (if 1024 \<le> v \<and> i < length units - 1 then scale (v / 1024) (i + 1) else (v, i))"
  by pat_completeness auto
termination
  by (relation "measure (\<lambda>(v, i). length units - 1 - i)") auto

definition formatBytes :: "number \<Rightarrow> jsstring" where
  "formatBytes bytes = (if \<not> isFinite bytes then [] else
     case bytes of
       Finite b \<Rightarrow> (case scale b 0 of (v, i) \<Rightarrow>
          toFixed v (if i = 0 then 0 else 1) @ js '' '' @
          (if i < length units then units ! i else js ''undefined''))
     | _ \<Rightarrow> [])"

text \<open>
  The shape of a number in fixed notation with \<open>f\<close> fraction digits: an optional minus,
  one or more digits and, for \<open>f > 0\<close>, a point and exactly \<open>f\<close> digits.
\<close>

definition strip_sign :: "jsstring \<Rightarrow> jsstring" where
  "strip_sign s = (case s of [] \<Rightarrow> [] | c # r \<Rightarrow> if c = 0x2D then r else s)"

definition is_fixed :: "nat \<Rightarrow> jsstring \<Rightarrow> bool" where
  "is_fixed f s =
    (let t = strip_sign s; ip = takeWhile is_digit t; fp = dropWhile is_digit t
     in ip \<noteq> [] \<and>
        (if f = 0 then fp = []
         else (case fp of [] \<Rightarrow> False
               | c # ds \<Rightarrow> c = 0x2E \<and> length ds = f \<and> list_all is_digit ds)))"

section \<open>The persisted JSON text\<close>

subsection \<open>Writing: \<open>JSON.stringify\<close> at the type of the photo list\<close>

text \<open>
  \<open>QuoteJSONString\<close>: the two-character escapes, \<open>\uXXXX\<close> (lower-case hexadecimal) for
  the other control characters and for a surrogate that is not part of a pair, every other
  code unit as it is.
\<close>

definition is_lead :: "cu \<Rightarrow> bool" where
  "is_lead c = (0xD800 \<le> c \<and> c \<le> 0xDBFF)"

definition is_trail :: "cu \<Rightarrow> bool" where
  "is_trail c = (0xDC00 \<le> c \<and> c \<le> 0xDFFF)"

definition hex_digit :: "nat \<Rightarrow> cu" where
  "hex_digit d = of_nat (if d < 10 then 48 + d else 87 + d)"

definition UnicodeEscape :: "cu \<Rightarrow> jsstring" where
  "UnicodeEscape c = (let n = unat c in
     [0x5C, 0x75, hex_digit (n div 4096), hex_digit (n div 256 mod 16),
      hex_digit (n div 16 mod 16), hex_digit (n mod 16)])"

definition quote_unit :: "cu \<Rightarrow> jsstring" where
  "quote_unit c =
    (if c = 0x08 then [0x5C, 0x62]
     else if c = 0x09 then [0x5C, 0x74]
     else if c = 0x0A then [0x5C, 0x6E]
     else if c = 0x0C then [0x5C, 0x66]
     else if c = 0x0D then [0x5C, 0x72]
     else if c = 0x22 then [0x5C, 0x22]
     else if c = 0x5C then [0x5C, 0x5C]
     else if c < 0x20 \<or> is_lead c \<or> is_trail c then UnicodeEscape c
     else [c])"

fun quote_units :: "jsstring \<Rightarrow> jsstring" where
  "quote_units [] = []"
| "quote_units [c] = quote_unit c"
| "quote_units (c # d # cs) =
    (if is_lead c \<and> is_trail d then c # d # quote_units cs
     else quote_unit c @ quote_units (d # cs))"

definition QuoteJSONString :: "jsstring \<Rightarrow> jsstring" where
  "QuoteJSONString s = 0x22 # quote_units s @ [0x22]"

fun join :: "jsstring \<Rightarrow> jsstring list \<Rightarrow> jsstring" where
  "join sep [] = []"
| "join sep [x] = x"
| "join sep (x # y # ys) = x @ sep @ join sep (y # ys)"

definition property :: "string \<Rightarrow> jsstring \<Rightarrow> jsstring" where
  "property k v = QuoteJSONString (js k) @ js '':'' @ v"

subsection \<open>Reading: \<open>JSON.parse\<close>\<close>

datatype json =
    JNull
  | JBool bool
  | JNum rat
  | JStr jsstring
  | JArr "json list"
  | JObj "(jsstring \<times> json) list"

text \<open>
  A number is carried by the exact value of its literal; the members of an object are kept
  as the text lists them. The decoders below accept a number only where binary64 holds
  the literal's value exactly, and an object only where its members are the fields of the
  record type.
\<close>

definition is_ws :: "cu \<Rightarrow> bool" where
  "is_ws c = (c = 0x20 \<or> c = 0x09 \<or> c = 0x0A \<or> c = 0x0D)"

definition skip_ws :: "jsstring \<Rightarrow> jsstring" where
  "skip_ws s = dropWhile is_ws s"

definition digits_value :: "jsstring \<Rightarrow> nat" where
  "digits_value ds = foldl (\<lambda>a d. 10 * a + (unat d - 48)) 0 ds"

definition hex_value :: "cu \<Rightarrow> nat option" where
  "hex_value c =
    (if 0x30 \<le> c \<and> c \<le> 0x39 then Some (unat c - 48)
     else if 0x61 \<le> c \<and> c \<le> 0x66 then Some (unat c - 87)
     else if 0x41 \<le> c \<and> c \<le> 0x46 then Some (unat c - 55)
     else None)"

definition hex4 :: "cu \<Rightarrow> cu \<Rightarrow> cu \<Rightarrow> cu \<Rightarrow> cu option" where
  "hex4 a b c d =
    (case (hex_value a, hex_value b, hex_value c, hex_value d) of
       (Some w, Some x, Some y, Some z) \<Rightarrow> Some (of_nat (((w * 16 + x) * 16 + y) * 16 + z))
     | _ \<Rightarrow> None)"

definition unescape :: "cu \<Rightarrow> cu option" where
  "unescape e =
    (if e = 0x22 then Some 0x22
     else if e = 0x5C then Some 0x5C
     else if e = 0x2F then Some 0x2F
     else if e = 0x62 then Some 0x08
     else if e = 0x66 then Some 0x0C
     else if e = 0x6E then Some 0x0A
     else if e = 0x72 then Some 0x0D
     else if e = 0x74 then Some 0x09
     else None)"

text \<open>The characters of a string, after its opening quote, up to the closing one.\<close>

fun parse_chars :: "jsstring \<Rightarrow> (jsstring \<times> jsstring) option" where
  "parse_chars [] = None"
| "parse_chars (c # cs) =
    (if c = 0x22 then Some ([], cs)
     else if c = 0x5C then
       (case cs of
          [] \<Rightarrow> None
        | e # es \<Rightarrow>
           if e = 0x75 then
             (case es of
                h1 # h2 # h3 # h4 # r \<Rightarrow>
                  (case hex4 h1 h2 h3 h4 of
                     None \<Rightarrow> None
                   | Some u \<Rightarrow> map_option (apfst ((#) u)) (parse_chars r))
              | _ \<Rightarrow> None)
           else
             (case unescape e of
                None \<Rightarrow> None
              | Some u \<Rightarrow> map_option (apfst ((#) u)) (parse_chars es)))
     else if c < 0x20 then None
     else map_option (apfst ((#) c)) (parse_chars cs))"

text \<open>
  A number: an optional minus, the integer part (a single zero, or digits that do not start
  with zero), an optional fraction, an optional exponent.
\<close>

definition parse_int :: "jsstring \<Rightarrow> (nat \<times> jsstring) option" where
  "parse_int s = (let ds = takeWhile is_digit s in
     if ds = [] \<or> (hd ds = 0x30 \<and> length ds \<noteq> 1) then None
     else Some (digits_value ds, dropWhile is_digit s))"

definition parse_frac :: "jsstring \<Rightarrow> (rat \<times> jsstring) option" where
  "parse_frac s = (case s of
       [] \<Rightarrow> Some (0, s)
     | c # r \<Rightarrow>
        if c = 0x2E then
          (let ds = takeWhile is_digit r in
           if ds = [] then None
           else Some (of_nat (digits_value ds) / 10 ^ length ds, dropWhile is_digit r))
        else Some (0, s))"

definition parse_sign :: "jsstring \<Rightarrow> int \<times> jsstring" where
  "parse_sign s = (case s of
       [] \<Rightarrow> (1, s)
     | c # r \<Rightarrow> if c = 0x2B then (1, r) else if c = 0x2D then (- 1, r) else (1, s))"

definition parse_exp :: "jsstring \<Rightarrow> (int \<times> jsstring) option" where
  "parse_exp s = (case s of
       [] \<Rightarrow> Some (0, s)
     | c # r \<Rightarrow>
        if c = 0x65 \<or> c = 0x45 then
          (case parse_sign r of (sg, r') \<Rightarrow>
             (let ds = takeWhile is_digit r' in
              if ds = [] then None
              else Some (sg * int (digits_value ds), dropWhile is_digit r')))
        else Some (0, s))"

definition parse_number :: "jsstring \<Rightarrow> (rat \<times> jsstring) option" where
  "parse_number s =
    (case (case s of [] \<Rightarrow> (False, s) | c # r \<Rightarrow> if c = 0x2D then (True, r) else (False, s)) of
       (neg, s1) \<Rightarrow>
        (case parse_int s1 of
           None \<Rightarrow> None
         | Some (ip, s2) \<Rightarrow>
            (case parse_frac s2 of
               None \<Rightarrow> None
             | Some (fp, s3) \<Rightarrow>
                (case parse_exp s3 of
                   None \<Rightarrow> None
                 | Some (ex, s4) \<Rightarrow>
                    Some ((if neg then - 1 else 1) * (of_nat ip + fp) *
                          (if 0 \<le> ex then 10 ^ nat ex else 1 / 10 ^ nat (- ex)), s4)))))"

text \<open>
  A value, the elements of a non-empty array (up to its closing bracket) and the members
  of a non-empty object (up to its closing brace). The first argument bounds the number of
  calls; \<open>JSON_parse\<close> gives a bound that the length of the text justifies, each call
  reading at least one code unit before the next but one (lemma \<open>fuel_enough\<close> below).
\<close>

fun parse_value :: "nat \<Rightarrow> jsstring \<Rightarrow> (json \<times> jsstring) option"
and parse_elements :: "nat \<Rightarrow> jsstring \<Rightarrow> (json list \<times> jsstring) option"
and parse_members :: "nat \<Rightarrow> jsstring \<Rightarrow> ((jsstring \<times> json) list \<times> jsstring) option"
where
  "parse_value 0 s = None"
| "parse_value (Suc n) s =
    (case skip_ws s of
       [] \<Rightarrow> None
     | c # cs \<Rightarrow>
        if c = 0x22 then map_option (apfst JStr) (parse_chars cs)
        else if c = 0x5B then
          (case skip_ws cs of
             [] \<Rightarrow> None
           | d # ds \<Rightarrow>
              if d = 0x5D then Some (JArr [], ds)
              else map_option (apfst JArr) (parse_elements n cs))
        else if c = 0x7B then
          (case skip_ws cs of
             [] \<Rightarrow> None
           | d # ds \<Rightarrow>
              if d = 0x7D then Some (JObj [], ds)
              else map_option (apfst JObj) (parse_members n cs))
        else if startsWith (c # cs) (js ''null'') then Some (JNull, drop 4 (c # cs))
        else if startsWith (c # cs) (js ''true'') then Some (JBool True, drop 4 (c # cs))
        else if startsWith (c # cs) (js ''false'') then Some (JBool False, drop 5 (c # cs))
        else map_option (apfst JNum) (parse_number (c # cs)))"
| "parse_elements 0 s = None"
| "parse_elements (Suc n) s =
    (case parse_value n s of
       None \<Rightarrow> None
     | Some (v, r) \<Rightarrow>
        (case skip_ws r of
           [] \<Rightarrow> None
         | c # cs \<Rightarrow>
            if c = 0x5D then Some ([v], cs)
            else if c = 0x2C then map_option (apfst ((#) v)) (parse_elements n cs)
            else None))"
| "parse_members 0 s = None"
| "parse_members (Suc n) s =
    (case skip_ws s of
       [] \<Rightarrow> None
     | q # qs \<Rightarrow>
        if q \<noteq> 0x22 then None
        else
          (case parse_chars qs of
             None \<Rightarrow> None
           | Some (k, r) \<Rightarrow>
              (case skip_ws r of
                 [] \<Rightarrow> None
               | c # cs \<Rightarrow>
                  if c \<noteq> 0x3A then None
                  else
                    (case parse_value n cs of
                       None \<Rightarrow> None
                     | Some (v, r') \<Rightarrow>
                        (case skip_ws r' of
                           [] \<Rightarrow> None
                         | e # es \<Rightarrow>
                            if e = 0x7D then Some ([(k, v)], es)
                            else if e = 0x2C then
                              map_option (apfst ((#) (k, v))) (parse_members n es)
                            else None)))))"

text \<open>\<open>JSON.parse\<close>: one value, then white space only. \<open>None\<close> is the SyntaxError.\<close>

definition JSON_parse :: "jsstring \<Rightarrow> json option" where
  "JSON_parse text = (case parse_value (2 * length text + 2) text of
       None \<Rightarrow> None
     | Some (v, r) \<Rightarrow> if skip_ws r = [] then Some v else None)"

text \<open>
  What the component reads off a parsed value. \<open>JNum\<close> carries the mathematical value of
  the literal; the Number that \<open>JSON.parse\<close> makes of it is the binary64 value nearest to
  it. \<open>as_finite\<close> is a Number that is no infinity, \<open>as_int\<close> one that is an integer below
  \<open>2^53\<close> in magnitude.
\<close>

definition as_string :: "json \<Rightarrow> jsstring option" where
  "as_string v = (case v of JStr s \<Rightarrow> Some s | _ \<Rightarrow> None)"

definition as_number :: "json \<Rightarrow> number option" where
  "as_number v = (case v of JNum q \<Rightarrow> Some (number_value q) | _ \<Rightarrow> None)"

definition as_finite :: "json \<Rightarrow> rat option" where
  "as_finite v = (case as_number v of Some (Finite r) \<Rightarrow> Some r | _ \<Rightarrow> None)"

definition as_int :: "json \<Rightarrow> int option" where
  "as_int v = (case as_finite v of
       Some r \<Rightarrow> if r = of_int \<lfloor>r\<rfloor> \<and> \<bar>r\<bar> < 2 ^ 53 then Some \<lfloor>r\<rfloor> else None
     | None \<Rightarrow> None)"

definition as_safe :: "json \<Rightarrow> safe option" where
  "as_safe v = (case as_int v of
       Some i \<Rightarrow> if 0 \<le> i then Some (of_int i) else None
     | None \<Rightarrow> None)"

definition field :: "string \<Rightarrow> jsstring \<times> json \<Rightarrow> json option" where
  "field k m = (if fst m = js k then Some (snd m) else None)"


section \<open>Local mode: the browser-only component\<close>

subsection \<open>Data\<close>

text \<open>
  A \<open>File\<close> as \<open>addFiles\<close> sees it: its name, declared media type and byte size, and what
  a \<open>FileReader\<close> delivers for it, the data URL at \<open>onload\<close> or nothing at \<open>onerror\<close>.
\<close>

record File =
  file_name :: jsstring
  file_type :: jsstring
  file_size :: safe
  file_data :: "jsstring option"

record PhotoItem =
  photo_id :: jsstring
  photo_name :: jsstring
  photo_type :: jsstring
  photo_size :: safe
  photo_createdAt :: safe
  photo_dataUrl :: jsstring

definition MAX_STORED_IMAGES :: nat where
  "MAX_STORED_IMAGES = 30"

definition MAX_IMAGE_BYTES :: nat where
  "MAX_IMAGE_BYTES = 4 * 1024 * 1024"

datatype DOMException = SecurityError | QuotaExceededError | NotReadableError

text \<open>
  \<open>localStorage\<close> at the key \<open>photo_gallery_v1\<close>, the only one the component uses: either
  the browser denies the access to the storage (every use throws), or there is the entry,
  if any, and the room the browser leaves to it, in code units (\<open>setItem\<close> throws beyond it).
\<close>

datatype localStorage = Denied | Storage "jsstring option" nat

fun getItem :: "localStorage \<Rightarrow> DOMException + jsstring option" where
  "getItem Denied = Inl SecurityError"
| "getItem (Storage entry room) = Inr entry"

fun setItem :: "jsstring \<Rightarrow> localStorage \<Rightarrow> DOMException + localStorage" where
  "setItem v Denied = Inl SecurityError"
| "setItem v (Storage entry room) =
     (if length v \<le> room then Inr (Storage (Some v) room) else Inl QuotaExceededError)"

fun removeItem :: "localStorage \<Rightarrow> DOMException + localStorage" where
  "removeItem Denied = Inl SecurityError"
| "removeItem (Storage entry room) = Inr (Storage None room)"

text \<open>
  The state of the component (\<open>useState\<close>) together with the storage it persists to. The
  drag-and-drop flag and the input reference take no part in the operations below.
\<close>

record local_state =
  photos :: "PhotoItem list"
  activeId :: "jsstring option"
  error :: "jsstring option"
  storage :: localStorage

text \<open>
  What the environment hands to one call of \<open>addFiles\<close>: the result of the \<open>k\<close>-th call of
  \<open>crypto.randomUUID()\<close> and of \<open>Date.now()\<close>.
\<close>

record env =
  randomUUID :: "nat \<Rightarrow> jsstring"
  dateNow :: "nat \<Rightarrow> safe"

subsection \<open>The persisted string\<close>

text \<open>
  \<open>JSON.stringify(photos)\<close>: the records in order, each with its properties in the order
  in which \<open>addFiles\<close> creates them.
\<close>

definition stringify_photo :: "PhotoItem \<Rightarrow> jsstring" where
  "stringify_photo p = js ''{'' @ join (js '','')
     [property ''id'' (QuoteJSONString (photo_id p)),
      property ''name'' (QuoteJSONString (photo_name p)),
      property ''type'' (QuoteJSONString (photo_type p)),
      property ''size'' (show_nat (unat (photo_size p))),
      property ''createdAt'' (show_nat (unat (photo_createdAt p))),
      property ''dataUrl'' (QuoteJSONString (photo_dataUrl p))] @ js ''}''"

definition JSON_stringify :: "PhotoItem list \<Rightarrow> jsstring" where
  "JSON_stringify ps = js ''['' @ join (js '','') (map stringify_photo ps) @ js '']''"

text \<open>
  The records of the typed state are the objects that \<open>addFiles\<close> creates: exactly the six
  properties, in the order of \<open>stringify_photo\<close>, three strings, two integers from 0 to
  below \<open>2^53\<close> and a string. On these objects the six values determine the text that the
  save effect writes. \<open>decode_photo\<close> reads a parsed value as such a record. The load effect
  installs whatever array it parsed, with no check; when an element is any other value
  (also an object with the same properties in another order, or with further ones) the
  array is kept as it was parsed, as \<open>Untyped\<close>: the component then holds that array, and
  the typed operations say nothing more about it.
\<close>

definition decode_photo :: "json \<Rightarrow> PhotoItem option" where
  "decode_photo v = (case v of
       JObj [m1, m2, m3, m4, m5, m6] \<Rightarrow>
         Option.bind (Option.bind (field ''id'' m1) as_string) (\<lambda>a.
         Option.bind (Option.bind (field ''name'' m2) as_string) (\<lambda>b.
         Option.bind (Option.bind (field ''type'' m3) as_string) (\<lambda>c.
         Option.bind (Option.bind (field ''size'' m4) as_safe) (\<lambda>d.
         Option.bind (Option.bind (field ''createdAt'' m5) as_safe) (\<lambda>e.
         Option.bind (Option.bind (field ''dataUrl'' m6) as_string) (\<lambda>f.
           Some \<lparr>photo_id = a, photo_name = b, photo_type = c, photo_size = d,
                  photo_createdAt = e, photo_dataUrl = f\<rparr>))))))
     | _ \<Rightarrow> None)"

text \<open>The value that \<open>JSON.parse\<close> builds for the text of a record.\<close>

definition photo_json :: "PhotoItem \<Rightarrow> json" where
  "photo_json p = JObj
     [(js ''id'', JStr (photo_id p)), (js ''name'', JStr (photo_name p)),
      (js ''type'', JStr (photo_type p)), (js ''size'', JNum (of_nat (unat (photo_size p)))),
      (js ''createdAt'', JNum (of_nat (unat (photo_createdAt p)))),
      (js ''dataUrl'', JStr (photo_dataUrl p))]"

fun decode_list :: "(json \<Rightarrow> 'a option) \<Rightarrow> json list \<Rightarrow> 'a list option" where
  "decode_list dec [] = Some []"
| "decode_list dec (v # vs) = (case dec v of
       None \<Rightarrow> None
     | Some p \<Rightarrow> map_option ((#) p) (decode_list dec vs))"

datatype untyped = Untyped json

subsection \<open>The effects\<close>

text \<open>
  The load effect: \<open>Inr (Some ps)\<close> and \<open>Inl (Untyped (JArr vs))\<close> are its call of
  \<open>setPhotos\<close> with the parsed array, \<open>Inr None\<close> is no call (no entry, an empty string, a
  text that is no JSON, a value that is no array, or an exception, which it ignores).
\<close>

definition loadEffect :: "localStorage \<Rightarrow> untyped + PhotoItem list option" where
  "loadEffect st = (case getItem st of
       Inl ex \<Rightarrow> Inr None
     | Inr None \<Rightarrow> Inr None
     | Inr (Some raw) \<Rightarrow>
        if raw = [] then Inr None
        else (case JSON_parse raw of
            None \<Rightarrow> Inr None
          | Some (JArr vs) \<Rightarrow>
             (case decode_list decode_photo vs of
                None \<Rightarrow> Inl (Untyped (JArr vs))
              | Some ps \<Rightarrow> Inr (Some ps))
          | Some _ \<Rightarrow> Inr None))"

text \<open>The number of elements of the array that the entry holds, if it holds one.\<close>

definition stored_length :: "localStorage \<Rightarrow> nat" where
  "stored_length st = (case getItem st of
       Inr (Some raw) \<Rightarrow>
         if raw = [] then 0
         else (case JSON_parse raw of Some (JArr vs) \<Rightarrow> length vs | _ \<Rightarrow> 0)
     | _ \<Rightarrow> 0)"

text \<open>The save effect, which runs after every render in which \<open>photos\<close> is a new array.\<close>

definition saveEffect :: "local_state \<Rightarrow> local_state" where
  "saveEffect s = (case setItem (JSON_stringify (photos s)) (storage s) of
       Inl ex \<Rightarrow> s
     | Inr st \<Rightarrow> s\<lparr>storage := st\<rparr>)"

text \<open>
  Mounting the component on a storage (Initialize): the first render has the empty list;
  the load effect reads the entry, the save effect of the same render writes the empty
  list, and if the load effect has set the photos, the next render's save effect writes
  them.
\<close>

definition initial :: "localStorage \<Rightarrow> local_state" where
  "initial st = \<lparr>photos = [], activeId = None, error = None, storage = st\<rparr>"

definition mount :: "localStorage \<Rightarrow> untyped + local_state" where
  "mount st = (case loadEffect st of
       Inl u \<Rightarrow> Inl u
     | Inr None \<Rightarrow> Inr (saveEffect (initial st))
     | Inr (Some ps) \<Rightarrow> Inr (saveEffect ((saveEffect (initial st))\<lparr>photos := ps\<rparr>)))"

text \<open>
  The number of entries of the sequence that the mounted component holds, also when the
  array is not in the typed state.
\<close>

definition entries :: "untyped + local_state \<Rightarrow> nat" where
  "entries r = (case r of
       Inl (Untyped v) \<Rightarrow> (case v of JArr vs \<Rightarrow> length vs | _ \<Rightarrow> 0)
     | Inr s \<Rightarrow> length (photos s))"

subsection \<open>The operations\<close>

fun readFileAsDataURL :: "File \<Rightarrow> DOMException + jsstring" where
  "readFileAsDataURL f = (case file_data f of
       None \<Rightarrow> Inl NotReadableError
     | Some url \<Rightarrow> Inr url)"

text \<open>The record that \<open>addFiles\<close> pushes for the \<open>k\<close>-th accepted file.\<close>

definition new_record :: "env \<Rightarrow> nat \<Rightarrow> File \<Rightarrow> jsstring \<Rightarrow> PhotoItem" where
  "new_record e k f dataUrl =
     \<lparr>photo_id = randomUUID e k, photo_name = file_name f, photo_type = file_type f,
      photo_size = file_size f, photo_createdAt = dateNow e k, photo_dataUrl = dataUrl\<rparr>"

text \<open>
  The loop of \<open>addFiles\<close> over the accepted files, from the \<open>k\<close>-th on: it stops at the
  first file that cannot be read, where the \<open>await\<close> throws.
\<close>

fun read_all :: "env \<Rightarrow> nat \<Rightarrow> File list \<Rightarrow> DOMException + PhotoItem list" where
  "read_all e k [] = Inr []"
| "read_all e k (f # fs) = (case readFileAsDataURL f of
       Inl ex \<Rightarrow> Inl ex
     | Inr dataUrl \<Rightarrow>
        (case read_all e (Suc k) fs of
           Inl ex \<Rightarrow> Inl ex
         | Inr next \<Rightarrow> Inr (new_record e k f dataUrl # next)))"

text \<open>How the promise of an asynchronous operation settles.\<close>

datatype settled = Fulfilled | Rejected

definition too_large :: "File \<Rightarrow> jsstring" where
  "too_large tooBig = js ''One file is too large ('' @ file_name tooBig @ js '', '' @
     formatBytes (Finite (of_nat (unat (file_size tooBig)))) @ js ''). Max '' @
     formatBytes (Finite (of_nat MAX_IMAGE_BYTES)) @ js ''.''"

definition addFiles :: "env \<Rightarrow> File list option \<Rightarrow> local_state \<Rightarrow> settled \<times> local_state" where
  "addFiles e fileList s0 =
    (let s1 = s0\<lparr>error := None\<rparr>;
         files = filter (\<lambda>f. startsWith (file_type f) (js ''image/''))
                   (case fileList of None \<Rightarrow> [] | Some fs \<Rightarrow> fs)
     in
     if length files = 0 then
       (Fulfilled, s1\<lparr>error := Some (js ''Please select an image file (JPG/PNG/WebP/GIF).'')\<rparr>)
     else
       (case find (\<lambda>f. MAX_IMAGE_BYTES < unat (file_size f)) files of
          Some tooBig \<Rightarrow> (Fulfilled, s1\<lparr>error := Some (too_large tooBig)\<rparr>)
        | None \<Rightarrow>
           (case read_all e 0 files of
              Inl ex \<Rightarrow> (Rejected, s1)
            | Inr next \<Rightarrow>
               (let s2 = s1\<lparr>photos := take MAX_STORED_IMAGES (next @ photos s1)\<rparr>
                in (Fulfilled,
                    if length next = 1 then s2\<lparr>activeId := Some (photo_id (hd next))\<rparr>
                    else s2)))))"

definition removePhoto :: "jsstring \<Rightarrow> local_state \<Rightarrow> local_state" where
  "removePhoto i s =
     s\<lparr>photos := filter (\<lambda>p. photo_id p \<noteq> i) (photos s),
       activeId := (if activeId s = Some i then None else activeId s)\<rparr>"

definition clearAll :: "local_state \<Rightarrow> local_state" where
  "clearAll s =
     s\<lparr>photos := [], activeId := None,
       storage := (case removeItem (storage s) of Inl ex \<Rightarrow> storage s | Inr st \<Rightarrow> st)\<rparr>"


section \<open>Server mode: the component backed by the photo endpoint\<close>

subsection \<open>Data\<close>

record ServerPhotoItem =
  item_id :: rat
  item_name :: jsstring
  item_created_at :: jsstring
  item_image_url :: jsstring
  item_thumb_url :: jsstring

definition MAX_IMAGE_BYTES_server :: nat where
  "MAX_IMAGE_BYTES_server = 4 * 1024 * 1024 * 1024"

record server_state =
  sphotos :: "ServerPhotoItem list"
  sactiveId :: "rat option"
  serror :: "jsstring option"
  busy :: bool

text \<open>
  How a \<open>fetch\<close> ends: it rejects with an error that has a message, or it resolves to a
  response with a status and a body text. \<open>ok\<close> is the response's flag of the same name,
  which the Fetch standard defines as a status from 200 to 299.
\<close>

datatype fetched = NetworkError jsstring | Response nat jsstring

definition ok :: "nat \<Rightarrow> bool" where
  "ok status = (200 \<le> status \<and> status \<le> 299)"

text \<open>
  What the network does during one operation: the outcome of the request of each method,
  and the message of the SyntaxError that \<open>res.json()\<close> throws at a body that is no JSON.
\<close>

record network =
  GET :: fetched
  POST :: fetched
  DELETE :: fetched
  syntax_error :: jsstring

text \<open>\<open>e?.message || fallback\<close>, at the message of the error caught.\<close>

definition message_or :: "jsstring \<Rightarrow> jsstring \<Rightarrow> jsstring" where
  "message_or m fallback = (if m = [] then fallback else m)"

text \<open>
  \<open>loadPhotos\<close> casts the value of \<open>res.json()\<close> to \<open>PhotoItem[]\<close> with no check. A value is
  in the typed state when it is an array of objects whose properties \<open>id\<close> (a finite
  Number), \<open>name\<close>, \<open>created_at\<close>, \<open>image_url\<close> and \<open>thumb_url\<close> (strings) are as the
  type says; they are read as \<open>JSON.parse\<close> binds them, the last occurrence of a key, and
  the component reads no other property. An identifier is a binary64 value, carried by its
  exact rational value, on which \<open>===\<close> is equality.
\<close>

definition get_property :: "(jsstring \<times> json) list \<Rightarrow> string \<Rightarrow> json option" where
  "get_property ms k = map_of (rev ms) (js k)"

definition decode_item :: "json \<Rightarrow> ServerPhotoItem option" where
  "decode_item v = (case v of
       JObj ms \<Rightarrow>
         Option.bind (Option.bind (get_property ms ''id'') as_finite) (\<lambda>a.
         Option.bind (Option.bind (get_property ms ''name'') as_string) (\<lambda>b.
         Option.bind (Option.bind (get_property ms ''created_at'') as_string) (\<lambda>c.
         Option.bind (Option.bind (get_property ms ''image_url'') as_string) (\<lambda>d.
         Option.bind (Option.bind (get_property ms ''thumb_url'') as_string) (\<lambda>e.
           Some \<lparr>item_id = a, item_name = b, item_created_at = c, item_image_url = d,
                  item_thumb_url = e\<rparr>)))))
     | _ \<Rightarrow> None)"

definition decode_items :: "json \<Rightarrow> ServerPhotoItem list option" where
  "decode_items data = (case data of JArr vs \<Rightarrow> decode_list decode_item vs | _ \<Rightarrow> None)"

subsection \<open>The operations\<close>

text \<open>
  \<open>setPhotos(data)\<close> at the value that the response carried. When the value is no
  \<open>PhotoItem[]\<close> the component goes on with it all the same: the result is then
  \<open>Inl (Untyped data, s)\<close>, where \<open>s\<close> is the state of the component but for its photos,
  which are \<open>data\<close> (\<open>sphotos s\<close> is not read). \<open>state_of\<close> is the state in either case.
\<close>

definition setPhotos :: "json \<Rightarrow> server_state \<Rightarrow> (untyped \<times> server_state) + server_state" where
  "setPhotos data s = (case decode_items data of
       None \<Rightarrow> Inl (Untyped data, s)
     | Some ps \<Rightarrow> Inr (s\<lparr>sphotos := ps\<rparr>))"

definition state_of :: "(untyped \<times> server_state) + server_state \<Rightarrow> server_state" where
  "state_of r = (case r of Inl (u, s) \<Rightarrow> s | Inr s \<Rightarrow> s)"

text \<open>
  Each operation is a \<open>try\<close> block, whose result is the message of the error thrown or
  what it has done, under a \<open>catch\<close> that sets the error. The \<open>try\<close> block of \<open>loadPhotos\<close>
  ends with the value that it hands to \<open>setPhotos\<close>.
\<close>

definition loadPhotos_try :: "network \<Rightarrow> jsstring + json" where
  "loadPhotos_try net = (case GET net of
       NetworkError m \<Rightarrow> Inl m
     | Response status body \<Rightarrow>
        if \<not> ok status then Inl (js ''Failed to load ('' @ show_nat status @ js '')'')
        else (case JSON_parse body of
            None \<Rightarrow> Inl (syntax_error net)
          | Some data \<Rightarrow> Inr data))"

definition loadPhotos :: "network \<Rightarrow> server_state \<Rightarrow> (untyped \<times> server_state) + server_state" where
  "loadPhotos net s0 = (let s1 = s0\<lparr>serror := None\<rparr> in
     case loadPhotos_try net of
       Inl m \<Rightarrow> Inr (s1\<lparr>serror := Some (message_or m (js ''Failed to load photos''))\<rparr>)
     | Inr data \<Rightarrow> setPhotos data s1)"

definition file_too_large :: "File \<Rightarrow> jsstring" where
  "file_too_large tooBig = js ''File too large: '' @ file_name tooBig @ js '' ('' @
     formatBytes (Finite (of_nat (unat (file_size tooBig)))) @ js ''). Max '' @
     formatBytes (Finite (of_nat MAX_IMAGE_BYTES_server)) @ js ''.''"

definition uploadFiles_try ::
  "network \<Rightarrow> server_state \<Rightarrow> jsstring + ((untyped \<times> server_state) + server_state)" where
  "uploadFiles_try net s = (case POST net of
       NetworkError m \<Rightarrow> Inl m
     | Response status t \<Rightarrow>
        if \<not> ok status then Inl (js ''Upload failed ('' @ show_nat status @ js ''): '' @ t)
        else Inr (loadPhotos net s))"

definition uploadFiles ::
  "network \<Rightarrow> File list option \<Rightarrow> server_state \<Rightarrow> (untyped \<times> server_state) + server_state" where
  "uploadFiles net fileList s0 =
    (let s1 = s0\<lparr>serror := None\<rparr>;
         files = filter (\<lambda>f. startsWith (file_type f) (js ''image/''))
                   (case fileList of None \<Rightarrow> [] | Some fs \<Rightarrow> fs)
     in
     if length files = 0 then
       Inr (s1\<lparr>serror := Some (js ''Please select an image file (JPG/PNG/WebP/GIF).'')\<rparr>)
     else
       (case find (\<lambda>f. MAX_IMAGE_BYTES_server < unat (file_size f)) files of
          Some tooBig \<Rightarrow> Inr (s1\<lparr>serror := Some (file_too_large tooBig)\<rparr>)
        | None \<Rightarrow>
           (let s2 = s1\<lparr>busy := True\<rparr> in
            case uploadFiles_try net s2 of
              Inl m \<Rightarrow> Inr (s2\<lparr>serror := Some (message_or m (js ''Upload failed'')), busy := False\<rparr>)
            | Inr (Inl (u, s3)) \<Rightarrow> Inl (u, s3\<lparr>busy := False\<rparr>)
            | Inr (Inr s3) \<Rightarrow> Inr (s3\<lparr>busy := False\<rparr>))))"

definition deletePhoto_try :: "network \<Rightarrow> rat \<Rightarrow> server_state \<Rightarrow> jsstring + server_state" where
  "deletePhoto_try net i s = (case DELETE net of
       NetworkError m \<Rightarrow> Inl m
     | Response status body \<Rightarrow>
        if \<not> ok status \<and> status \<noteq> 204 then
          Inl (js ''Delete failed ('' @ show_nat status @ js '')'')
        else
          Inr (s\<lparr>sphotos := filter (\<lambda>p. item_id p \<noteq> i) (sphotos s),
                 sactiveId := (if sactiveId s = Some i then None else sactiveId s)\<rparr>))"

definition deletePhoto :: "network \<Rightarrow> rat \<Rightarrow> server_state \<Rightarrow> server_state" where
  "deletePhoto net i s0 = (let s1 = s0\<lparr>serror := None, busy := True\<rparr> in
     (case deletePhoto_try net i s1 of
        Inl m \<Rightarrow> s1\<lparr>serror := Some (message_or m (js ''Delete failed''))\<rparr>
      | Inr s2 \<Rightarrow> s2)\<lparr>busy := False\<rparr>)"

section \<open>Example inputs\<close>

definition photo_a :: PhotoItem where
  "photo_a = \<lparr>photo_id = js ''a'', photo_name = js ''x.png'', photo_type = js ''image/png'',
     photo_size = 1, photo_createdAt = 2, photo_dataUrl = js ''data:''\<rparr>"

definition state_a :: local_state where
  "state_a = \<lparr>photos = [photo_a], activeId = Some (js ''a''), error = None,
     storage = Storage None 0\<rparr>"

definition file_ok :: File where
  "file_ok = \<lparr>file_name = js ''x.png'', file_type = js ''image/png'', file_size = 5,
     file_data = Some (js ''data:'')\<rparr>"

definition file_unreadable :: File where
  "file_unreadable = \<lparr>file_name = js ''u.png'', file_type = js ''image/png'', file_size = 5,
     file_data = None\<rparr>"

definition file_big :: File where
  "file_big = \<lparr>file_name = js ''big.png'', file_type = js ''image/png'', file_size = 5000000,
     file_data = Some (js ''data:'')\<rparr>"

definition env_a :: env where
  "env_a = \<lparr>randomUUID = (\<lambda>k. js ''b''), dateNow = (\<lambda>k. 3)\<rparr>"

definition item1 :: ServerPhotoItem where
  "item1 = \<lparr>item_id = 1, item_name = js ''a.png'', item_created_at = js ''2024'',
     item_image_url = js ''/m/a.png'', item_thumb_url = js ''/t/a.png''\<rparr>"
definition item2 :: ServerPhotoItem where
  "item2 = \<lparr>item_id = 2, item_name = js ''b.png'', item_created_at = js ''2024'',
     item_image_url = js ''/m/b.png'', item_thumb_url = js ''/t/b.png''\<rparr>"
definition server_a :: server_state where
  "server_a = \<lparr>sphotos = [item1, item2], sactiveId = Some 1, serror = None, busy = False\<rparr>"
definition net_204 :: network where
  "net_204 = \<lparr>GET = NetworkError [], POST = NetworkError [], DELETE = Response 204 [],
     syntax_error = []\<rparr>"

definition net_500 :: network where
  "net_500 = \<lparr>GET = NetworkError [], POST = Response 500 (js ''boom''), DELETE = NetworkError [],
     syntax_error = []\<rparr>"

definition state_b :: local_state where
  "state_b = \<lparr>photos = [photo_a], activeId = None, error = None, storage = Storage None 1000\<rparr>"

definition net_ok :: network where
  "net_ok = \<lparr>GET = Response 200 (js ''[]''), POST = Response 201 [], DELETE = Response 204 [],
     syntax_error = js ''Unexpected end of JSON input''\<rparr>"

text \<open>The text of the record \<open>photo_a\<close> with the name before the identifier, in an array.\<close>

definition name_first :: jsstring where
  "name_first = js ''[{'' @ join (js '','')
     [property ''name'' (QuoteJSONString (js ''x.png'')),
      property ''id'' (QuoteJSONString (js ''a'')),
      property ''type'' (QuoteJSONString (js ''image/png'')),
      property ''size'' (js ''1''),
      property ''createdAt'' (js ''2''),
      property ''dataUrl'' (QuoteJSONString (js ''data:''))] @ js ''}]''"

text \<open>
  Responses to the list request: an item whose identifier is no integer, with a further
  property, and a body that holds no array.
\<close>

definition item_body :: jsstring where
  "item_body = js ''[{'' @ join (js '','')
     [property ''thumb_url'' (QuoteJSONString (js ''/t/c.png'')),
      property ''id'' (js ''1.5''),
      property ''name'' (QuoteJSONString (js ''c.png'')),
      property ''created_at'' (QuoteJSONString (js ''2024'')),
      property ''width'' (js ''640''),
      property ''image_url'' (QuoteJSONString (js ''/m/c.png''))] @ js ''}]''"

definition net_item :: network where
  "net_item = \<lparr>GET = Response 200 item_body, POST = Response 201 [], DELETE = Response 204 [],
     syntax_error = js ''Unexpected end of JSON input''\<rparr>"

definition item3 :: ServerPhotoItem where
  "item3 = \<lparr>item_id = 3 / 2, item_name = js ''c.png'', item_created_at = js ''2024'',
     item_image_url = js ''/m/c.png'', item_thumb_url = js ''/t/c.png''\<rparr>"

definition net_null :: network where
  "net_null = \<lparr>GET = Response 200 (js ''null''), POST = Response 201 [],
     DELETE = Response 500 [], syntax_error = js ''Unexpected end of JSON input''\<rparr>"

section \<open>Local mode: removal\<close>

text \<open>
  Claim C9. In local mode \<open>Remove(id)\<close> is idempotent and total: a second call with the
  same identifier changes nothing, the operation has no error outcome and leaves the error
  state as it is, and with an identifier that occurs in no record it changes nothing but a
  selection of that identifier.
\<close>

theorem removePhoto_idempotent:
  "removePhoto i (removePhoto i s) = removePhoto i s \<and>
   error (removePhoto i s) = error s \<and>
   storage (removePhoto i s) = storage s \<and>
   (i \<notin> photo_id ` set (photos s) \<longrightarrow>
      removePhoto i s = s\<lparr>activeId := (if activeId s = Some i then None else activeId s)\<rparr>)"
proof -
  have "filter (\<lambda>p. photo_id p \<noteq> i) (photos s) = photos s"
    if "i \<notin> photo_id ` set (photos s)"
    using that by (auto simp: filter_id_conv)
  then show ?thesis by (auto simp: removePhoto_def)
qed

theorem removePhoto_idempotent_witness:
  "removePhoto (js ''b'') (removePhoto (js ''b'') state_a) = state_a"
  using removePhoto_idempotent [of "js ''b''" state_a]
  by (simp add: state_a_def photo_a_def js_def)

section \<open>Local mode: adding files\<close>

lemma read_all_readable:
  "\<forall>f \<in> set fs. file_data f \<noteq> None \<Longrightarrow>
   read_all e k fs = Inr (map (\<lambda>(j, f). new_record e j f (the (file_data f))) (enumerate k fs))"
  by (induction fs arbitrary: k) auto

lemma read_all_unreadable:
  "\<exists>f \<in> set fs. file_data f = None \<Longrightarrow> \<exists>ex. read_all e k fs = Inl ex"
proof (induction fs arbitrary: k)
  case Nil
  then show ?case by simp
next
  case (Cons a fs)
  show ?case
  proof (cases "file_data a")
    case None
    then show ?thesis by simp
  next
    case (Some url)
    with Cons.prems have "\<exists>f \<in> set fs. file_data f = None" by auto
    then obtain ex where "read_all e (Suc k) fs = Inl ex" using Cons.IH by blast
    with Some show ?thesis by simp
  qed
qed

lemma find_Some_mem: "find P xs = Some x \<Longrightarrow> x \<in> set xs \<and> P x"
  by (induction xs) (auto split: if_splits)

lemma floor_rat_numeral_div [simp]: "\<lfloor>(numeral a :: rat) / numeral b\<rfloor> = numeral a div numeral b"
  using floor_divide_of_int_eq [of "numeral a" "numeral b", where ?'a = rat] by simp

lemma floor_rat_one_div [simp]: "\<lfloor>(1 :: rat) / numeral b\<rfloor> = 1 div numeral b"
  using floor_divide_of_int_eq [of 1 "numeral b", where ?'a = rat] by simp

lemma formatBytes_5000000: "formatBytes (Finite 5000000) = js ''4.8 MB''"
  by (simp add: formatBytes_def units_def toFixed_def Let_def js_def)

lemma formatBytes_4MiB: "formatBytes (Finite 4194304) = js ''4.0 MB''"
  by (simp add: formatBytes_def units_def toFixed_def Let_def js_def)

text \<open>
  Claim C1, as the specification states it, fails: a batch of image files within the size
  limit does not lengthen the sequence when one of its files cannot be read. Here the
  reader fails on the one file of the batch; \<open>addFiles\<close> is rejected and the sequence keeps
  its one record, where the claim gives two.
\<close>

theorem addFiles_unreadable_counterexample:
  "startsWith (file_type file_unreadable) (js ''image/'') \<and>
   unat (file_size file_unreadable) \<le> MAX_IMAGE_BYTES \<and>
   addFiles env_a (Some [file_unreadable]) state_a = (Rejected, state_a) \<and>
   length (photos (snd (addFiles env_a (Some [file_unreadable]) state_a)))
     \<noteq> min (length (photos state_a) + length [file_unreadable]) 30"
  by (simp add: addFiles_def file_unreadable_def state_a_def startsWith_def js_def
      MAX_IMAGE_BYTES_def Let_def)

text \<open>
  Claim C1, amended. Take a non-empty batch of image files, none of them above 4 MiB.
  When each file is readable, \<open>addFiles\<close> is fulfilled, the new records are those of the
  files in input order, and the sequence is the new records before the previous sequence,
  cut to 30: its length is \<open>min (previous + batch) 30\<close>, its first entries are the new
  records and what is cut is cut from the tail. When the reader fails on a file of the
  batch, \<open>addFiles\<close> is rejected and the state is the previous one with the error
  cleared: the sequence is unchanged.
\<close>

theorem addFiles_prepends:
  assumes "fs \<noteq> []"
    and "\<forall>f \<in> set fs. startsWith (file_type f) (js ''image/'') \<and>
           unat (file_size f) \<le> MAX_IMAGE_BYTES"
  shows "((\<forall>f \<in> set fs. file_data f \<noteq> None) \<longrightarrow>
          (\<exists>next s'. addFiles e (Some fs) s = (Fulfilled, s') \<and>
             next = map (\<lambda>(k, f). new_record e k f (the (file_data f))) (enumerate 0 fs) \<and>
             photos s' = take 30 (next @ photos s) \<and>
             length (photos s') = min (length (photos s) + length fs) 30 \<and>
             take (length fs) (photos s') = take 30 next \<and>
             drop (length fs) (photos s') = take (30 - length fs) (photos s))) \<and>
         ((\<exists>f \<in> set fs. file_data f = None) \<longrightarrow>
          addFiles e (Some fs) s = (Rejected, s\<lparr>error := None\<rparr>) \<and>
          photos (snd (addFiles e (Some fs) s)) = photos s)"
proof (intro conjI impI)
  let ?next = "map (\<lambda>(k, f). new_record e k f (the (file_data f))) (enumerate 0 fs)"
  have filt: "filter (\<lambda>f. startsWith (file_type f) (js ''image/'')) fs = fs"
    using assms(2) by (simp add: filter_id_conv)
  have nobig: "find (\<lambda>f. MAX_IMAGE_BYTES < unat (file_size f)) fs = None"
    using assms(2) by (auto simp: find_None_iff)
  {
    assume readable: "\<forall>f \<in> set fs. file_data f \<noteq> None"
    have rd: "read_all e 0 fs = Inr ?next"
      using readable by (rule read_all_readable)
    have len: "length ?next = length fs" by simp
    obtain s' where s': "addFiles e (Some fs) s = (Fulfilled, s')"
      and ph: "photos s' = take 30 (?next @ photos s)"
      using assms(1) filt nobig rd
      by (cases "length fs = 1") (simp_all add: addFiles_def Let_def MAX_STORED_IMAGES_def)
    have "length (photos s') = min 30 (length ?next + length (photos s))"
      unfolding ph by (simp only: length_take length_append)
    then have "length (photos s') = min (length (photos s) + length fs) 30"
      unfolding len by (simp only: min.commute add.commute)
    moreover have "take (length fs) (photos s') = take 30 ?next"
      using ph len by (simp add: take_take min_def)
    moreover have "drop (length fs) (photos s') = take (30 - length fs) (photos s)"
      unfolding ph drop_take by (simp add: len)
    ultimately show "\<exists>next s'. addFiles e (Some fs) s = (Fulfilled, s') \<and>
             next = map (\<lambda>(k, f). new_record e k f (the (file_data f))) (enumerate 0 fs) \<and>
             photos s' = take 30 (next @ photos s) \<and>
             length (photos s') = min (length (photos s) + length fs) 30 \<and>
             take (length fs) (photos s') = take 30 next \<and>
             drop (length fs) (photos s') = take (30 - length fs) (photos s)"
      using s' ph by blast
  }
  {
    assume "\<exists>f \<in> set fs. file_data f = None"
    then obtain ex where "read_all e 0 fs = Inl ex"
      using read_all_unreadable by blast
    then show rej: "addFiles e (Some fs) s = (Rejected, s\<lparr>error := None\<rparr>)"
      using assms(1) filt nobig by (simp add: addFiles_def Let_def)
    show "photos (snd (addFiles e (Some fs) s)) = photos s"
      unfolding rej by simp
  }
qed

theorem addFiles_prepends_witness:
  "addFiles env_a (Some [file_ok]) state_a =
     (Fulfilled, state_a\<lparr>photos := [new_record env_a 0 file_ok (js ''data:''), photo_a],
                         activeId := Some (js ''b'')\<rparr>) \<and>
   addFiles env_a (Some [file_ok, file_unreadable]) state_a = (Rejected, state_a)"
  using addFiles_prepends [of "[file_ok]" env_a state_a]
    addFiles_prepends [of "[file_ok, file_unreadable]" env_a state_a]
  by (simp add: addFiles_def file_ok_def file_unreadable_def state_a_def startsWith_def js_def
      MAX_IMAGE_BYTES_def MAX_STORED_IMAGES_def Let_def env_a_def new_record_def)

text \<open>
  Claim C2. A batch with an accepted image file above 4 MiB leaves the state unchanged
  but for the error, which \<open>addFiles\<close> sets to the message that names an offending file (the
  first one among the accepted files) and its formatted size.
\<close>

theorem addFiles_too_large:
  assumes "f \<in> set fs"
    and "startsWith (file_type f) (js ''image/'')"
    and "MAX_IMAGE_BYTES < unat (file_size f)"
  shows "\<exists>tooBig. tooBig \<in> set fs \<and> startsWith (file_type tooBig) (js ''image/'') \<and>
           MAX_IMAGE_BYTES < unat (file_size tooBig) \<and>
           addFiles e (Some fs) s =
             (Fulfilled,
              s\<lparr>error := Some (js ''One file is too large ('' @ file_name tooBig @ js '', '' @
                   formatBytes (Finite (of_nat (unat (file_size tooBig)))) @ js ''). Max '' @
                   formatBytes (Finite (of_nat MAX_IMAGE_BYTES)) @ js ''.'')\<rparr>)"
proof -
  let ?files = "filter (\<lambda>f. startsWith (file_type f) (js ''image/'')) fs"
  have mem: "f \<in> set ?files" using assms(1,2) by simp
  then have ne: "?files \<noteq> []" by (auto simp: filter_empty_conv)
  from mem assms(3) obtain tooBig
    where fnd: "find (\<lambda>f. MAX_IMAGE_BYTES < unat (file_size f)) ?files = Some tooBig"
    by (cases "find (\<lambda>f. MAX_IMAGE_BYTES < unat (file_size f)) ?files")
       (auto simp: find_None_iff)
  from find_Some_mem [OF fnd]
  have "tooBig \<in> set fs" "startsWith (file_type tooBig) (js ''image/'')"
    "MAX_IMAGE_BYTES < unat (file_size tooBig)"
    by simp_all
  moreover have "addFiles e (Some fs) s = (Fulfilled, s\<lparr>error := Some (too_large tooBig)\<rparr>)"
    using ne fnd by (simp add: addFiles_def Let_def)
  ultimately show ?thesis unfolding too_large_def by blast
qed

theorem addFiles_too_large_witness:
  "addFiles env_a (Some [file_ok, file_big]) state_a =
     (Fulfilled, state_a\<lparr>error := Some (js ''One file is too large (big.png, 4.8 MB). Max 4.0 MB.'')\<rparr>)"
  using addFiles_too_large [of file_big "[file_ok, file_big]" env_a state_a]
  by (auto simp: file_ok_def file_big_def startsWith_def MAX_IMAGE_BYTES_def formatBytes_5000000 formatBytes_4MiB js_def)

section \<open>The Number of a numeric literal\<close>

lemma bit_length_0: "bit_length 0 = 0"
  by simp

lemma bit_length_pos: "0 < n \<Longrightarrow> bit_length n = Suc (bit_length (n div 2))"
  by (subst bit_length.simps) simp

lemma bit_length_bounds: "0 < n \<Longrightarrow> 2 ^ (bit_length n - 1) \<le> n \<and> n < 2 ^ bit_length n"
proof (induction n rule: bit_length.induct)
  case (1 n)
  have bl: "bit_length n = Suc (bit_length (n div 2))"
    using "1.prems" by (rule bit_length_pos)
  show ?case
  proof (cases "n div 2 = 0")
    case True
    with "1.prems" have "n = 1" by (simp add: div_eq_0_iff del: bit_length.simps)
    then show ?thesis using bl True by (simp add: bit_length_0 del: bit_length.simps)
  next
    case False
    with "1.IH" "1.prems"
    have ih: "2 ^ (bit_length (n div 2) - 1) \<le> n div 2" "n div 2 < 2 ^ bit_length (n div 2)"
      by (simp_all del: bit_length.simps)
    have pos: "0 < bit_length (n div 2)"
      using False by (simp add: bit_length_pos del: bit_length.simps)
    have "2 * 2 ^ (bit_length (n div 2) - 1) \<le> n" using ih(1) by arith
    moreover have "2 * 2 ^ (bit_length (n div 2) - 1) = (2::nat) ^ bit_length (n div 2)"
      using pos by (cases "bit_length (n div 2)") (simp_all del: bit_length.simps)
    moreover have "n < 2 * 2 ^ bit_length (n div 2)" using ih(2) by arith
    ultimately show ?thesis by (simp add: bl del: bit_length.simps)
  qed
qed

lemma round_half_even_int: "round_half_even (of_int k) = k"
  by (simp add: round_half_even_def)

text \<open>An integer below \<open>2^53\<close> is a binary64 value.\<close>

lemma number_value_nat:
  assumes "n < 2 ^ 53"
  shows "number_value (of_nat n) = Finite (of_nat n)"
proof (cases "n = 0")
  case True
  then show ?thesis by (simp add: number_value_def)
next
  case False
  then have pos: "0 < n" by simp
  obtain j where b: "bit_length n = Suc j"
    using bit_length_pos [OF pos] by blast
  from bit_length_bounds [OF pos] have lo: "2 ^ j \<le> n"
    by (simp add: b del: bit_length.simps)
  have j52: "j \<le> 52"
  proof (rule ccontr)
    assume "\<not> j \<le> 52"
    then have "53 \<le> j" by simp
    then have "(2::nat) ^ 53 \<le> 2 ^ j" by (rule power_increasing) simp
    with lo assms show False by simp
  qed
  have ge1: "(1::rat) \<le> of_nat n" using pos by simp
  have fl: "floor_log2 (of_nat n) = int j"
    unfolding floor_log2_def using ge1 by (simp add: b del: bit_length.simps)
  define k where "k = 52 - j"
  have e: "max (int j) (- 1022) - 52 = - int k" using j52 by (simp add: k_def)
  have ulp: "(2::rat) powi (- int k) = 1 / 2 ^ k"
    by (simp add: power_int_def inverse_eq_divide power_one_over)
  have m: "(of_nat n :: rat) / (1 / 2 ^ k) = of_int (int (n * 2 ^ k))" by simp
  have r: "of_int (round_half_even (of_nat n / (1 / 2 ^ k))) * (1 / 2 ^ k) = (of_nat n :: rat)"
    unfolding m round_half_even_int by simp
  have big: "(of_nat n :: rat) < 2 ^ 1024"
  proof -
    have "n < 2 ^ 1024" using assms by (rule less_le_trans) simp
    then show ?thesis by (metis of_nat_less_iff of_nat_numeral of_nat_power)
  qed
  have nz: "(of_nat n :: rat) \<noteq> 0" "\<not> (of_nat n :: rat) < 0" "\<bar>of_nat n :: rat\<bar> = of_nat n"
    using False by simp_all
  show ?thesis
    unfolding number_value_def Let_def nz fl e ulp r
    using big nz by (simp only: if_False not_le [symmetric] simp_thms)
qed

text \<open>From \<open>2^52\<close> on it is the conversion that \<open>toFixed\<close> uses.\<close>

lemma number_value_binary64:
  assumes "2 ^ 52 \<le> y"
  shows "number_value y = (case binary64 y of Some r \<Rightarrow> Finite r | None \<Rightarrow> PosInfinity)"
proof -
  define n where "n = nat \<lfloor>y\<rfloor>"
  have y1: "1 \<le> y" "0 < y" "y \<noteq> 0" "\<not> y < 0" "\<bar>y\<bar> = y"
    using assms by (simp_all add: order_trans [of 1 "2 ^ 52" y] less_le_trans [of 0 "2 ^ 52" y])
  have "(2::int) ^ 52 \<le> \<lfloor>y\<rfloor>" using assms by (simp add: le_floor_iff)
  then have n52: "2 ^ 52 \<le> n" by (simp add: n_def le_nat_iff)
  then have pos: "0 < n" by (simp add: less_le_trans [of 0 "2 ^ 52" n])
  obtain j where b: "bit_length n = Suc j"
    using bit_length_pos [OF pos] by blast
  from bit_length_bounds [OF pos] have hi: "n < 2 ^ Suc j"
    by (simp add: b del: bit_length.simps)
  have j52: "52 \<le> j"
  proof (rule ccontr)
    assume "\<not> 52 \<le> j"
    then have "Suc j \<le> 52" by simp
    then have "(2::nat) ^ Suc j \<le> 2 ^ 52" by (rule power_increasing) simp
    with hi n52 show False by simp
  qed
  have fl: "floor_log2 y = int j"
    unfolding floor_log2_def using y1 by (simp add: n_def [symmetric] b del: bit_length.simps)
  have e: "max (int j) (- 1022) - 52 = int (j - 52)" using j52 by simp
  have ulp: "(2::rat) powi int (j - 52) = 2 ^ (j - 52)" by (rule power_int_of_nat)
  have bin: "binary64 y = (let r = of_int (round_half_even (y / 2 ^ (j - 52))) * 2 ^ (j - 52)
                           in if r < 2 ^ 1024 then Some r else None)"
    unfolding binary64_def by (simp add: n_def [symmetric] b Let_def del: bit_length.simps)
  have u: "(2::rat) powi (max (floor_log2 \<bar>y\<bar>) (- 1022) - 52) = 2 ^ (j - 52)"
    unfolding y1 fl e ulp ..
  show ?thesis
    unfolding number_value_def bin Let_def u using y1
    by (simp add: not_le [symmetric])
qed

text \<open>
  A literal that is no binary64 value is rounded, here to the even one of its two
  neighbours; a fraction that binary64 holds is kept.
\<close>

lemma floor_log2_2p53: "floor_log2 9007199254740993 = 53"
  by (simp add: floor_log2_def)

lemma number_value_2p53: "number_value 9007199254740993 = Finite 9007199254740992"
proof -
  have "round_half_even (9007199254740993 / 2) = 4503599627370496"
    by (simp add: round_half_even_def)
  then show ?thesis
    by (simp add: number_value_def floor_log2_2p53 Let_def)
qed

lemma floor_log2_half: "floor_log2 (3 / 2) = 0"
  by (simp add: floor_log2_def)

lemma number_value_half: "number_value (3 / 2) = Finite (3 / 2)"
proof -
  have "(2::rat) powi (- 52) = 1 / 4503599627370496"
    by (simp add: power_int_minus inverse_eq_divide)
  moreover have "round_half_even (3 / 2 / (1 / 4503599627370496)) = 6755399441055744"
    using round_half_even_int [of 6755399441055744] by simp
  ultimately show ?thesis
    by (simp add: number_value_def floor_log2_half Let_def)
qed

section \<open>Server mode: upload and delete\<close>

lemma js_nonempty: "s \<noteq> [] \<Longrightarrow> js s \<noteq> []"
  by (simp add: js_def)

lemma message_or_append: "message_or (js (c # cs) @ r) d = js (c # cs) @ r"
  by (simp add: message_or_def js_def)

text \<open>
  Claim C6. In server mode, when the upload request is answered with a status outside
  200 to 299, the photo sequence and the selection are unchanged and the error is
  \<open>Upload failed (status): body\<close>.
\<close>

theorem uploadFiles_failure:
  assumes "filter (\<lambda>f. startsWith (file_type f) (js ''image/'')) fs \<noteq> []"
    and "\<forall>f \<in> set fs. startsWith (file_type f) (js ''image/'') \<longrightarrow>
           unat (file_size f) \<le> MAX_IMAGE_BYTES_server"
    and "POST net = Response status t"
    and "\<not> ok status"
  shows "uploadFiles net (Some fs) s =
           Inr (s\<lparr>serror := Some (js ''Upload failed ('' @ show_nat status @ js ''): '' @ t),
                  busy := False\<rparr>)"
proof -
  have "find (\<lambda>f. MAX_IMAGE_BYTES_server < unat (file_size f))
          (filter (\<lambda>f. startsWith (file_type f) (js ''image/'')) fs) = None"
    using assms(2) by (auto simp: find_None_iff)
  then show ?thesis
    using assms(1,3,4)
    by (simp add: uploadFiles_def uploadFiles_try_def Let_def message_or_append)
qed

theorem uploadFiles_failure_witness:
  "uploadFiles net_500 (Some [file_ok]) server_a =
     Inr (server_a\<lparr>serror := Some (js ''Upload failed (500): boom'')\<rparr>)"
  using uploadFiles_failure [of "[file_ok]" net_500 500 "js ''boom''" server_a]
  by (simp add: file_ok_def net_500_def startsWith_def MAX_IMAGE_BYTES_server_def ok_def
      server_a_def js_def)

text \<open>
  Claim C7. In server mode, when the delete request is answered with a success status or
  with 204, the sequence is the previous one without the records of that identifier, the
  others in order, and the selection is cleared if and only if it was that identifier; on
  a failure response, and when the request fails, the sequence and the selection are
  unchanged.
\<close>

theorem deletePhoto_removes:
  "(DELETE net = Response status body \<and> (ok status \<or> status = 204) \<longrightarrow>
      sphotos (deletePhoto net i s) = filter (\<lambda>p. item_id p \<noteq> i) (sphotos s) \<and>
      sactiveId (deletePhoto net i s) = (if sactiveId s = Some i then None else sactiveId s)) \<and>
   (DELETE net = Response status body \<and> \<not> (ok status \<or> status = 204) \<longrightarrow>
      sphotos (deletePhoto net i s) = sphotos s \<and>
      sactiveId (deletePhoto net i s) = sactiveId s) \<and>
   (DELETE net = NetworkError m \<longrightarrow>
      sphotos (deletePhoto net i s) = sphotos s \<and>
      sactiveId (deletePhoto net i s) = sactiveId s)"
  by (auto simp: deletePhoto_def deletePhoto_try_def Let_def)

theorem deletePhoto_removes_witness:
  "sphotos (deletePhoto net_204 1 server_a) = [item2] \<and>
   sactiveId (deletePhoto net_204 1 server_a) = None"
  using deletePhoto_removes [of net_204 204 "[]" 1 server_a "[]"]
  by (simp add: net_204_def server_a_def item1_def item2_def ok_def)

section \<open>The error state\<close>

lemma addFiles_error_reset: "addFiles e fl (s\<lparr>error := x\<rparr>) = addFiles e fl s"
  by (simp add: addFiles_def)

lemma addFiles_error:
  "error (snd (addFiles e fl s)) =
    (let files = filter (\<lambda>f. startsWith (file_type f) (js ''image/''))
                   (case fl of None \<Rightarrow> [] | Some fs \<Rightarrow> fs)
     in if files = [] then Some (js ''Please select an image file (JPG/PNG/WebP/GIF).'')
        else case find (\<lambda>f. MAX_IMAGE_BYTES < unat (file_size f)) files of
               Some tooBig \<Rightarrow> Some (too_large tooBig)
             | None \<Rightarrow> None)"
  by (simp add: addFiles_def Let_def split: option.splits sum.splits)

lemma addFiles_rejected_error:
  "fst (addFiles e fl s) = Rejected \<Longrightarrow> error (snd (addFiles e fl s)) = None"
  by (auto simp: addFiles_def Let_def split: option.splits sum.splits if_splits)

lemma loadPhotos_error_reset: "loadPhotos net (s\<lparr>serror := x\<rparr>) = loadPhotos net s"
  by (simp add: loadPhotos_def)

lemma uploadFiles_error_reset: "uploadFiles net fl (s\<lparr>serror := x\<rparr>) = uploadFiles net fl s"
  by (simp add: uploadFiles_def)

lemma deletePhoto_error_reset: "deletePhoto net i (s\<lparr>serror := x\<rparr>) = deletePhoto net i s"
  by (simp add: deletePhoto_def)

lemma deletePhoto_error:
  "serror (deletePhoto net i s) =
     (case DELETE net of
        NetworkError m \<Rightarrow> Some (message_or m (js ''Delete failed''))
      | Response status body \<Rightarrow>
         if \<not> ok status \<and> status \<noteq> 204
         then Some (js ''Delete failed ('' @ show_nat status @ js '')'')
         else None)"
  by (simp add: deletePhoto_def deletePhoto_try_def Let_def message_or_append
      split: fetched.splits)

lemma setPhotos_serror: "serror (state_of (setPhotos data s)) = serror s"
  by (simp add: setPhotos_def state_of_def split: option.splits)

lemma loadPhotos_error:
  "serror (state_of (loadPhotos net s)) =
     (case GET net of
        NetworkError m \<Rightarrow> Some (message_or m (js ''Failed to load photos''))
      | Response status body \<Rightarrow>
         if \<not> ok status then Some (js ''Failed to load ('' @ show_nat status @ js '')'')
         else (case JSON_parse body of
             None \<Rightarrow> Some (message_or (syntax_error net) (js ''Failed to load photos''))
           | Some data \<Rightarrow> None))"
proof (cases "GET net")
  case (NetworkError m)
  then show ?thesis by (simp add: loadPhotos_def loadPhotos_try_def state_of_def)
next
  case (Response status body)
  show ?thesis
  proof (cases "ok status")
    case False
    with Response show ?thesis
      by (simp add: loadPhotos_def loadPhotos_try_def state_of_def message_or_append)
  next
    case True
    show ?thesis
    proof (cases "JSON_parse body")
      case None
      with Response True show ?thesis
        by (simp add: loadPhotos_def loadPhotos_try_def state_of_def)
    next
      case (Some data)
      with Response True show ?thesis
        by (simp add: loadPhotos_def loadPhotos_try_def setPhotos_serror)
    qed
  qed
qed

lemma loadPhotos_error_state:
  "serror (state_of (loadPhotos net s)) = serror (state_of (loadPhotos net s'))"
  unfolding loadPhotos_error ..

lemma state_of_busy: "serror (state_of (case r of Inl (u, s3) \<Rightarrow> Inl (u, s3\<lparr>busy := False\<rparr>)
     | Inr s3 \<Rightarrow> Inr (s3\<lparr>busy := False\<rparr>))) = serror (state_of r)"
  by (cases r) (auto simp: state_of_def)

lemma uploadFiles_error:
  "serror (state_of (uploadFiles net fl s)) =
    (let files = filter (\<lambda>f. startsWith (file_type f) (js ''image/''))
                   (case fl of None \<Rightarrow> [] | Some fs \<Rightarrow> fs)
     in if files = [] then Some (js ''Please select an image file (JPG/PNG/WebP/GIF).'')
        else case find (\<lambda>f. MAX_IMAGE_BYTES_server < unat (file_size f)) files of
               Some tooBig \<Rightarrow> Some (file_too_large tooBig)
             | None \<Rightarrow>
                (case POST net of
                   NetworkError m \<Rightarrow> Some (message_or m (js ''Upload failed''))
                 | Response status body \<Rightarrow>
                    if \<not> ok status
                    then Some (js ''Upload failed ('' @ show_nat status @ js ''): '' @ body)
                    else serror (state_of (loadPhotos net s))))"
proof -
  let ?files = "filter (\<lambda>f. startsWith (file_type f) (js ''image/''))
                   (case fl of None \<Rightarrow> [] | Some fs \<Rightarrow> fs)"
  show ?thesis
  proof (cases "?files = []")
    case True
    then show ?thesis by (simp add: uploadFiles_def Let_def state_of_def)
  next
    case ne: False
    show ?thesis
    proof (cases "find (\<lambda>f. MAX_IMAGE_BYTES_server < unat (file_size f)) ?files")
      case (Some tooBig)
      with ne show ?thesis by (simp add: uploadFiles_def Let_def state_of_def)
    next
      case None
      show ?thesis
      proof (cases "POST net")
        case (NetworkError m)
        with None ne show ?thesis
          by (simp add: uploadFiles_def uploadFiles_try_def Let_def state_of_def)
      next
        case (Response status body)
        show ?thesis
        proof (cases "ok status")
          case False
          with Response None ne show ?thesis
            by (simp add: uploadFiles_def uploadFiles_try_def Let_def state_of_def
                message_or_append)
        next
          case True
          have "serror (state_of (uploadFiles net fl s)) =
                serror (state_of (loadPhotos net (s\<lparr>serror := None, busy := True\<rparr>)))"
            using Response None ne True
            by (cases "loadPhotos net (s\<lparr>serror := None, busy := True\<rparr>)")
               (auto simp: uploadFiles_def uploadFiles_try_def Let_def state_of_def)
          also have "\<dots> = serror (state_of (loadPhotos net s))"
            by (rule loadPhotos_error_state)
          finally show ?thesis using Response None ne True by (simp add: Let_def)
        qed
      qed
    qed
  qed
qed

text \<open>
  Claim C4, as the specification states it, fails: in local mode \<open>removePhoto\<close> and
  \<open>clearAll\<close> succeed and leave the error of an earlier failed \<open>addFiles\<close> in place.
\<close>

theorem error_not_cleared_counterexample:
  "photos (removePhoto (js ''a'') (snd (addFiles env_a None state_a))) = [] \<and>
   error (removePhoto (js ''a'') (snd (addFiles env_a None state_a)))
     = Some (js ''Please select an image file (JPG/PNG/WebP/GIF).'') \<and>
   error (clearAll (snd (addFiles env_a None state_a)))
     = Some (js ''Please select an image file (JPG/PNG/WebP/GIF).'')"
  by (simp add: addFiles_def removePhoto_def clearAll_def state_a_def photo_a_def)

text \<open>
  Claim C4, amended. The error state is one optional string. \<open>addFiles\<close>, \<open>loadPhotos\<close>,
  \<open>uploadFiles\<close> and \<open>deletePhoto\<close> do not depend on the error they find: they clear it
  first and set it only to the message of a failure of this call that they handle.
  \<open>addFiles\<close> leaves the message of its validation (no image file, or a file too large)
  and otherwise none: none when it has added the files, and none as well when it is
  rejected because a file could not be read, a failure that it does not catch.
  \<open>deletePhoto\<close> and \<open>loadPhotos\<close> leave the message of the request that failed, of the
  response with a failure status or of the body that is no JSON, and otherwise none,
  whatever value the body carried. \<open>uploadFiles\<close> leaves the message of its validation, of
  the upload request that failed or of its response with a failure status; after an
  upload that succeeded it leaves what the reload leaves. In local mode \<open>removePhoto\<close> and
  \<open>clearAll\<close> never touch the error state.
\<close>

theorem error_state_current:
  "addFiles e fl (s\<lparr>error := x\<rparr>) = addFiles e fl s \<and>
   error (snd (addFiles e fl s)) =
    (let files = filter (\<lambda>f. startsWith (file_type f) (js ''image/''))
                   (case fl of None \<Rightarrow> [] | Some fs \<Rightarrow> fs)
     in if files = [] then Some (js ''Please select an image file (JPG/PNG/WebP/GIF).'')
        else case find (\<lambda>f. MAX_IMAGE_BYTES < unat (file_size f)) files of
               Some tooBig \<Rightarrow> Some (too_large tooBig)
             | None \<Rightarrow> None) \<and>
   (fst (addFiles e fl s) = Rejected \<longrightarrow> error (snd (addFiles e fl s)) = None) \<and>
   error (removePhoto i s) = error s \<and>
   error (clearAll s) = error s \<and>
   loadPhotos net (t\<lparr>serror := y\<rparr>) = loadPhotos net t \<and>
   uploadFiles net fl (t\<lparr>serror := y\<rparr>) = uploadFiles net fl t \<and>
   deletePhoto net j (t\<lparr>serror := y\<rparr>) = deletePhoto net j t \<and>
   serror (deletePhoto net j t) =
     (case DELETE net of
        NetworkError m \<Rightarrow> Some (message_or m (js ''Delete failed''))
      | Response status body \<Rightarrow>
         if \<not> ok status \<and> status \<noteq> 204
         then Some (js ''Delete failed ('' @ show_nat status @ js '')'')
         else None) \<and>
   serror (state_of (loadPhotos net t)) =
     (case GET net of
        NetworkError m \<Rightarrow> Some (message_or m (js ''Failed to load photos''))
      | Response status body \<Rightarrow>
         if \<not> ok status then Some (js ''Failed to load ('' @ show_nat status @ js '')'')
         else (case JSON_parse body of
             None \<Rightarrow> Some (message_or (syntax_error net) (js ''Failed to load photos''))
           | Some data \<Rightarrow> None)) \<and>
   serror (state_of (uploadFiles net fl t)) =
    (let files = filter (\<lambda>f. startsWith (file_type f) (js ''image/''))
                   (case fl of None \<Rightarrow> [] | Some fs \<Rightarrow> fs)
     in if files = [] then Some (js ''Please select an image file (JPG/PNG/WebP/GIF).'')
        else case find (\<lambda>f. MAX_IMAGE_BYTES_server < unat (file_size f)) files of
               Some tooBig \<Rightarrow> Some (file_too_large tooBig)
             | None \<Rightarrow>
                (case POST net of
                   NetworkError m \<Rightarrow> Some (message_or m (js ''Upload failed''))
                 | Response status body \<Rightarrow>
                    if \<not> ok status
                    then Some (js ''Upload failed ('' @ show_nat status @ js ''): '' @ body)
                    else serror (state_of (loadPhotos net t))))"
proof (intro conjI impI)
  show "addFiles e fl (s\<lparr>error := x\<rparr>) = addFiles e fl s"
    by (rule addFiles_error_reset)
  show "error (removePhoto i s) = error s" by (simp add: removePhoto_def)
  show "error (clearAll s) = error s" by (simp add: clearAll_def)
  show "loadPhotos net (t\<lparr>serror := y\<rparr>) = loadPhotos net t"
    by (rule loadPhotos_error_reset)
  show "uploadFiles net fl (t\<lparr>serror := y\<rparr>) = uploadFiles net fl t"
    by (rule uploadFiles_error_reset)
  show "deletePhoto net j (t\<lparr>serror := y\<rparr>) = deletePhoto net j t"
    by (rule deletePhoto_error_reset)
next
  show "error (snd (addFiles e fl s)) =
    (let files = filter (\<lambda>f. startsWith (file_type f) (js ''image/''))
                   (case fl of None \<Rightarrow> [] | Some fs \<Rightarrow> fs)
     in if files = [] then Some (js ''Please select an image file (JPG/PNG/WebP/GIF).'')
        else case find (\<lambda>f. MAX_IMAGE_BYTES < unat (file_size f)) files of
               Some tooBig \<Rightarrow> Some (too_large tooBig)
             | None \<Rightarrow> None)"
    by (rule addFiles_error)
next
  assume "fst (addFiles e fl s) = Rejected"
  then show "error (snd (addFiles e fl s)) = None"
    by (rule addFiles_rejected_error)
next
  show "serror (deletePhoto net j t) =
     (case DELETE net of
        NetworkError m \<Rightarrow> Some (message_or m (js ''Delete failed''))
      | Response status body \<Rightarrow>
         if \<not> ok status \<and> status \<noteq> 204
         then Some (js ''Delete failed ('' @ show_nat status @ js '')'')
         else None)"
    by (rule deletePhoto_error)
next
  show "serror (state_of (loadPhotos net t)) =
     (case GET net of
        NetworkError m \<Rightarrow> Some (message_or m (js ''Failed to load photos''))
      | Response status body \<Rightarrow>
         if \<not> ok status then Some (js ''Failed to load ('' @ show_nat status @ js '')'')
         else (case JSON_parse body of
             None \<Rightarrow> Some (message_or (syntax_error net) (js ''Failed to load photos''))
           | Some data \<Rightarrow> None))"
    by (rule loadPhotos_error)
next
  show "serror (state_of (uploadFiles net fl t)) =
    (let files = filter (\<lambda>f. startsWith (file_type f) (js ''image/''))
                   (case fl of None \<Rightarrow> [] | Some fs \<Rightarrow> fs)
     in if files = [] then Some (js ''Please select an image file (JPG/PNG/WebP/GIF).'')
        else case find (\<lambda>f. MAX_IMAGE_BYTES_server < unat (file_size f)) files of
               Some tooBig \<Rightarrow> Some (file_too_large tooBig)
             | None \<Rightarrow>
                (case POST net of
                   NetworkError m \<Rightarrow> Some (message_or m (js ''Upload failed''))
                 | Response status body \<Rightarrow>
                    if \<not> ok status
                    then Some (js ''Upload failed ('' @ show_nat status @ js ''): '' @ body)
                    else serror (state_of (loadPhotos net t))))"
    by (rule uploadFiles_error)
qed

lemma JSON_parse_empty: "JSON_parse (js ''[]'') = Some (JArr [])"
  by code_simp

lemma JSON_parse_null: "JSON_parse (js ''null'') = Some JNull"
  by code_simp

lemma loadPhotos_net_ok: "loadPhotos net_ok server_a = Inr (server_a\<lparr>sphotos := []\<rparr>)"
  by (simp add: loadPhotos_def loadPhotos_try_def net_ok_def ok_def JSON_parse_empty
      setPhotos_def decode_items_def server_a_def)

lemma JSON_parse_item:
  "JSON_parse item_body = Some (JArr [JObj
     [(js ''thumb_url'', JStr (js ''/t/c.png'')), (js ''id'', JNum (3 / 2)),
      (js ''name'', JStr (js ''c.png'')), (js ''created_at'', JStr (js ''2024'')),
      (js ''width'', JNum 640), (js ''image_url'', JStr (js ''/m/c.png''))]])"
  by code_simp

text \<open>
  An item is taken into the typed state whatever the order of its properties, with the
  identifier that the literal gives, and its further properties are dropped.
\<close>

lemma loadPhotos_net_item: "loadPhotos net_item server_a = Inr (server_a\<lparr>sphotos := [item3]\<rparr>)"
  by (simp add: loadPhotos_def loadPhotos_try_def net_item_def ok_def JSON_parse_item
      setPhotos_def decode_items_def decode_item_def get_property_def as_finite_def
      as_number_def as_string_def number_value_half item3_def js_def server_a_def)

text \<open>An identifier above \<open>2^53\<close> is the Number that its literal rounds to.\<close>

lemma decode_item_rounds:
  "decode_item (JObj [(js ''id'', JNum 9007199254740993), (js ''name'', JStr (js ''a.png'')),
     (js ''created_at'', JStr (js ''2024'')), (js ''image_url'', JStr (js ''/m/a.png'')),
     (js ''thumb_url'', JStr (js ''/t/a.png''))]) = Some (item1\<lparr>item_id := 9007199254740992\<rparr>)"
  by (simp add: decode_item_def get_property_def as_finite_def as_number_def as_string_def
      number_value_2p53 item1_def js_def)

lemma loadPhotos_net_null:
  "loadPhotos net_null (server_a\<lparr>serror := Some (js ''old'')\<rparr>) = Inl (Untyped JNull, server_a)"
  by (simp add: loadPhotos_def loadPhotos_try_def net_null_def ok_def JSON_parse_null
      setPhotos_def decode_items_def server_a_def)

theorem error_state_current_witness:
  "error (snd (addFiles env_a (Some [file_ok]) (state_a\<lparr>error := Some (js ''old'')\<rparr>))) = None \<and>
   fst (addFiles env_a (Some [file_unreadable]) state_a) = Rejected \<and>
   error (snd (addFiles env_a (Some [file_unreadable]) (state_a\<lparr>error := Some (js ''old'')\<rparr>)))
     = None \<and>
   serror (deletePhoto net_ok 1 (server_a\<lparr>serror := Some (js ''old'')\<rparr>)) = None \<and>
   serror (deletePhoto net_null 1 server_a) = Some (js ''Delete failed (500)'') \<and>
   loadPhotos net_ok (server_a\<lparr>serror := Some (js ''old'')\<rparr>) = Inr (server_a\<lparr>sphotos := []\<rparr>) \<and>
   serror (state_of (loadPhotos net_null (server_a\<lparr>serror := Some (js ''old'')\<rparr>))) = None \<and>
   serror (state_of (uploadFiles net_500 (Some [file_ok]) server_a))
     = Some (js ''Upload failed (500): boom'')"
  using error_state_current [where e = env_a and fl = "Some [file_ok]" and s = state_a
      and x = "Some (js ''old'')" and i = "js ''a''" and net = net_ok and t = server_a
      and y = "Some (js ''old'')" and j = 1]
    error_state_current [where e = env_a and fl = "Some [file_unreadable]" and s = state_a
      and x = "Some (js ''old'')" and i = "js ''a''" and net = net_null and t = server_a
      and y = "Some (js ''old'')" and j = 1]
    error_state_current [where e = env_a and fl = "Some [file_ok]" and s = state_a
      and x = "Some (js ''old'')" and i = "js ''a''" and net = net_500 and t = server_a
      and y = "Some (js ''old'')" and j = 1]
    loadPhotos_net_ok
  by (simp add: file_ok_def file_unreadable_def startsWith_def js_def MAX_IMAGE_BYTES_def
      MAX_IMAGE_BYTES_server_def net_ok_def net_null_def net_500_def ok_def addFiles_def
      state_a_def JSON_parse_null [unfolded js_def, simplified] show_nat.simps)


section \<open>The persisted text is read back\<close>

subsection \<open>Strings\<close>

lemma unat_cu_bound: "unat (c :: cu) < 65536"
  using unsigned_less [of c, where ?'a = nat] by simp

lemma unat_cu_of_nat: "n < 65536 \<Longrightarrow> unat (of_nat n :: cu) = n"
  by (simp add: unat_of_nat)

lemma hex_value_digit: "d < 16 \<Longrightarrow> hex_value (hex_digit d) = Some d"
  by (auto simp: hex_value_def hex_digit_def word_le_nat_alt unat_cu_of_nat)

lemma hexsum:
  "((n div 4096 * 16 + n div 256 mod 16) * 16 + n div 16 mod 16) * 16 + n mod 16 = (n::nat)"
proof -
  define x where "x = n div 16"
  define y where "y = x div 16"
  define z where "z = y div 16"
  have y: "n div 256 = y" and z: "n div 4096 = z"
    by (simp_all add: x_def y_def z_def div_mult2_eq [symmetric])
  have "n = x * 16 + n mod 16" by (simp add: x_def)
  moreover have "x = y * 16 + x mod 16" by (simp add: y_def)
  moreover have "y = z * 16 + y mod 16" by (simp add: z_def)
  ultimately have "((z * 16 + y mod 16) * 16 + x mod 16) * 16 + n mod 16 = n" by simp
  then show ?thesis by (simp add: y z x_def [symmetric])
qed

lemma hex4_escape:
  "hex4 (hex_digit (unat c div 4096)) (hex_digit (unat c div 256 mod 16))
        (hex_digit (unat c div 16 mod 16)) (hex_digit (unat c mod 16)) = Some (c :: cu)"
proof -
  let ?n = "unat c"
  have b: "?n < 65536" by (rule unat_cu_bound)
  then have "?n div 4096 < 16" by simp
  then have "hex4 (hex_digit (?n div 4096)) (hex_digit (?n div 256 mod 16))
        (hex_digit (?n div 16 mod 16)) (hex_digit (?n mod 16))
      = Some (of_nat (((?n div 4096 * 16 + ?n div 256 mod 16) * 16 + ?n div 16 mod 16) * 16
           + ?n mod 16))"
    by (simp add: hex4_def hex_value_digit del: of_nat_add of_nat_mult)
  then show ?thesis
    by (simp only: hexsum) simp
qed

lemma parse_chars_raw:
  "c \<noteq> 0x22 \<Longrightarrow> c \<noteq> 0x5C \<Longrightarrow> \<not> c < 0x20 \<Longrightarrow>
   parse_chars (c # r) = map_option (apfst ((#) c)) (parse_chars r)"
  by simp

lemma parse_chars_quote_unit:
  "parse_chars (quote_unit c @ r) = map_option (apfst ((#) c)) (parse_chars r)"
proof -
  consider "c = 0x08" | "c = 0x09" | "c = 0x0A" | "c = 0x0C" | "c = 0x0D" | "c = 0x22" | "c = 0x5C"
    | "c \<notin> {0x08, 0x09, 0x0A, 0x0C, 0x0D, 0x22, 0x5C}" "c < 0x20 \<or> is_lead c \<or> is_trail c"
    | "c \<notin> {0x08, 0x09, 0x0A, 0x0C, 0x0D, 0x22, 0x5C}" "\<not> (c < 0x20 \<or> is_lead c \<or> is_trail c)"
    by blast
  then show ?thesis
  proof cases
    case 8
    then have "quote_unit c = UnicodeEscape c" by (simp add: quote_unit_def)
    then show ?thesis
      using hex4_escape [of c] by (simp add: UnicodeEscape_def Let_def)
  next
    case 9
    then have "quote_unit c = [c]" by (simp add: quote_unit_def)
    with 9 show ?thesis by simp
  qed (simp_all add: quote_unit_def unescape_def)
qed

lemma surrogate_raw:
  assumes "is_lead c \<or> is_trail c"
  shows "c \<noteq> 0x22" "c \<noteq> 0x5C" "\<not> c < 0x20"
  using assms by (auto simp: is_lead_def is_trail_def word_le_nat_alt word_less_nat_alt)

lemma parse_chars_quote_units:
  "parse_chars (quote_units s @ 0x22 # r) = Some (s, r)"
proof (induction s rule: quote_units.induct)
  case 1
  show ?case by simp
next
  case (2 c)
  have "parse_chars (0x22 # r) = Some ([], r)" by simp
  then show ?case
    using parse_chars_quote_unit [of c "0x22 # r"] by (simp del: parse_chars.simps)
next
  case (3 c d cs)
  show ?case
  proof (cases "is_lead c \<and> is_trail d")
    case True
    then have ih: "parse_chars (quote_units cs @ 0x22 # r) = Some (cs, r)"
      using 3 by blast
    have "parse_chars (d # quote_units cs @ 0x22 # r) = Some (d # cs, r)"
      using parse_chars_raw [of d "quote_units cs @ 0x22 # r"] surrogate_raw [of d] True ih
      by (simp del: parse_chars.simps)
    then have "parse_chars (c # d # quote_units cs @ 0x22 # r) = Some (c # d # cs, r)"
      using parse_chars_raw [of c "d # quote_units cs @ 0x22 # r"] surrogate_raw [of c] True
      by (simp del: parse_chars.simps)
    with True show ?thesis by (simp del: parse_chars.simps)
  next
    case False
    then have ih: "parse_chars (quote_units (d # cs) @ 0x22 # r) = Some (d # cs, r)"
      using 3 by blast
    from False have "quote_units (c # d # cs) = quote_unit c @ quote_units (d # cs)"
      by (cases "is_lead c") auto
    then show ?thesis
      using ih parse_chars_quote_unit [of c "quote_units (d # cs) @ 0x22 # r"]
      by (simp del: parse_chars.simps quote_units.simps)
  qed
qed

subsection \<open>Integers\<close>

declare show_nat.simps [simp del]
declare parse_chars.simps [simp del]

lemma digit_cu:
  assumes "d < 10"
  shows "is_digit (of_nat (48 + d))" "unat (of_nat (48 + d) :: cu) - 48 = d"
    "(of_nat (48 + d) :: cu) = 0x30 \<longleftrightarrow> d = 0"
proof -
  have u: "unat (of_nat (48 + d) :: cu) = 48 + d"
    using assms unat_cu_of_nat [of "48 + d"] by (simp del: of_nat_add)
  show "is_digit (of_nat (48 + d))"
    using assms by (simp add: is_digit_def word_le_nat_alt u del: of_nat_add)
  show "unat (of_nat (48 + d) :: cu) - 48 = d" by (simp add: u del: of_nat_add)
  have "(of_nat (48 + d) :: cu) = 0x30 \<longleftrightarrow> unat (of_nat (48 + d) :: cu) = unat (0x30 :: cu)"
    by (simp only: word_unat_eq_iff)
  then show "(of_nat (48 + d) :: cu) = 0x30 \<longleftrightarrow> d = 0" by (simp add: u del: of_nat_add)
qed

lemma show_nat_digits: "\<forall>c \<in> set (show_nat n). is_digit c"
proof (induction n rule: show_nat.induct)
  case (1 n)
  show ?case
  proof (cases "n < 10")
    case True
    then show ?thesis by (subst show_nat.simps) (simp add: digit_cu del: of_nat_add)
  next
    case False
    have "n mod 10 < 10" by simp
    with False 1 show ?thesis by (subst show_nat.simps) (simp add: digit_cu del: of_nat_add)
  qed
qed

lemma show_nat_nonempty: "show_nat n \<noteq> []"
  by (subst show_nat.simps) simp

lemma digits_value_snoc: "digits_value (ds @ [d]) = 10 * digits_value ds + (unat d - 48)"
  by (simp add: digits_value_def)

lemma digits_value_show_nat: "digits_value (show_nat n) = n"
proof (induction n rule: show_nat.induct)
  case (1 n)
  show ?case
  proof (cases "n < 10")
    case True
    then show ?thesis by (subst show_nat.simps) (simp add: digits_value_def digit_cu del: of_nat_add)
  next
    case False
    have m: "n mod 10 < 10" by simp
    from False 1 have "digits_value (show_nat (n div 10)) = n div 10" by simp
    with False show ?thesis
      by (subst show_nat.simps) (simp add: digits_value_snoc digit_cu [OF m] del: of_nat_add)
  qed
qed

lemma show_nat_hd: "0 < n \<Longrightarrow> hd (show_nat n) \<noteq> 0x30"
proof (induction n rule: show_nat.induct)
  case (1 n)
  show ?case
  proof (cases "n < 10")
    case True
    with 1 show ?thesis by (subst show_nat.simps) (simp add: digit_cu del: of_nat_add)
  next
    case False
    then have "0 < n div 10" by simp
    with False 1 have "hd (show_nat (n div 10)) \<noteq> 0x30" by simp
    with False show ?thesis
      by (subst show_nat.simps) (simp add: show_nat_nonempty)
  qed
qed

lemma show_nat_length: "length (show_nat n) = 1 \<longleftrightarrow> n < 10"
proof (cases "n < 10")
  case True
  then show ?thesis by (subst show_nat.simps) simp
next
  case False
  have "length (show_nat (n div 10)) \<noteq> 0" using show_nat_nonempty by simp
  with False show ?thesis by (subst show_nat.simps) simp
qed

lemma takeWhile_digits:
  assumes "\<forall>c \<in> set ds. is_digit c" "\<not> is_digit c"
  shows "takeWhile is_digit (ds @ c # r) = ds" "dropWhile is_digit (ds @ c # r) = c # r"
  using assms by (simp_all add: takeWhile_append2 dropWhile_append2)

lemma parse_int_show_nat:
  assumes "\<not> is_digit c"
  shows "parse_int (show_nat n @ c # r) = Some (n, c # r)"
proof -
  have t: "takeWhile is_digit (show_nat n @ c # r) = show_nat n"
    and d: "dropWhile is_digit (show_nat n @ c # r) = c # r"
    using takeWhile_digits [OF show_nat_digits assms] by simp_all
  have "\<not> (hd (show_nat n) = 0x30 \<and> length (show_nat n) \<noteq> 1)"
  proof (cases "n = 0")
    case True
    then show ?thesis using show_nat_length [of n] by simp
  next
    case False
    then show ?thesis using show_nat_hd [of n] by simp
  qed
  then show ?thesis
    by (simp add: parse_int_def t d show_nat_nonempty digits_value_show_nat Let_def)
qed

lemma parse_number_show_nat:
  assumes "c = 0x2C \<or> c = 0x7D \<or> c = 0x5D"
  shows "parse_number (show_nat n @ c # r) = Some (of_nat n, c # r)"
proof -
  have nd: "\<not> is_digit c" using assms by (auto simp: is_digit_def)
  obtain h t where ht: "show_nat n = h # t"
    using show_nat_nonempty [of n] by (cases "show_nat n") auto
  have "is_digit h" using show_nat_digits [of n] ht by simp
  then have h: "h \<noteq> 0x2D" by (auto simp: is_digit_def)
  have pf: "parse_frac (c # r) = Some (0, c # r)"
    using assms by (auto simp: parse_frac_def)
  have pe: "parse_exp (c # r) = Some (0, c # r)"
    using assms by (auto simp: parse_exp_def)
  have "parse_int (h # t @ c # r) = Some (n, c # r)"
    using parse_int_show_nat [OF nd, of n r] ht by simp
  then show ?thesis
    using h by (simp add: parse_number_def ht pf pe)
qed

subsection \<open>Records and the array\<close>

lemma skip_ws_id: "\<not> is_ws c \<Longrightarrow> skip_ws (c # r) = c # r"
  by (simp add: skip_ws_def)

lemma pv_string: "parse_value (Suc k) (QuoteJSONString s @ r) = Some (JStr s, r)"
  by (simp add: QuoteJSONString_def skip_ws_id is_ws_def parse_chars_quote_units)

lemma pv_number:
  assumes "c = 0x2C \<or> c = 0x7D \<or> c = 0x5D"
  shows "parse_value (Suc k) (show_nat n @ c # r) = Some (JNum (of_nat n), c # r)"
proof -
  obtain h t where ht: "show_nat n = h # t"
    using show_nat_nonempty [of n] by (cases "show_nat n") auto
  have "is_digit h" using show_nat_digits [of n] ht by simp
  then have h: "\<not> is_ws h" "h \<noteq> 0x22" "h \<noteq> 0x5B" "h \<noteq> 0x7B" "h \<noteq> 0x6E" "h \<noteq> 0x74" "h \<noteq> 0x66"
    by (auto simp: is_digit_def is_ws_def)
  have "parse_number (h # t @ c # r) = Some (of_nat n, c # r)"
    using parse_number_show_nat [OF assms, of n r] ht by simp
  then show ?thesis
    using h by (simp add: ht skip_ws_id startsWith_def js_def)
qed

lemma pm_last:
  assumes "parse_value k (vt @ 0x7D # r) = Some (v, 0x7D # r)"
  shows "parse_members (Suc k) (property key vt @ 0x7D # r) = Some ([(js key, v)], r)"
  using assms
  by (simp add: property_def QuoteJSONString_def skip_ws_id is_ws_def parse_chars_quote_units
      js_def)

lemma pm_more:
  assumes "parse_value k (vt @ 0x2C # r) = Some (v, 0x2C # r)"
    and "parse_members k r = Some (ms, r')"
  shows "parse_members (Suc k) (property key vt @ 0x2C # r) = Some ((js key, v) # ms, r')"
  using assms
  by (simp add: property_def QuoteJSONString_def skip_ws_id is_ws_def parse_chars_quote_units
      js_def)

lemma stringify_photo_unfold:
  "stringify_photo p @ r = 0x7B #
     property ''id'' (QuoteJSONString (photo_id p)) @ 0x2C #
     property ''name'' (QuoteJSONString (photo_name p)) @ 0x2C #
     property ''type'' (QuoteJSONString (photo_type p)) @ 0x2C #
     property ''size'' (show_nat (unat (photo_size p))) @ 0x2C #
     property ''createdAt'' (show_nat (unat (photo_createdAt p))) @ 0x2C #
     property ''dataUrl'' (QuoteJSONString (photo_dataUrl p)) @ 0x7D # r"
  by (simp add: stringify_photo_def js_def)

lemma property_hd: "\<exists>t. property key vt = 0x22 # t"
  by (simp add: property_def QuoteJSONString_def)

lemma pv_photo: "parse_value (Suc (Suc (Suc (Suc (Suc (Suc (Suc (Suc k)))))))) (stringify_photo p @ r)
    = Some (photo_json p, r)"
proof -
  let ?m6 = "property ''dataUrl'' (QuoteJSONString (photo_dataUrl p)) @ 0x7D # r"
  let ?m5 = "property ''createdAt'' (show_nat (unat (photo_createdAt p))) @ 0x2C # ?m6"
  let ?m4 = "property ''size'' (show_nat (unat (photo_size p))) @ 0x2C # ?m5"
  let ?m3 = "property ''type'' (QuoteJSONString (photo_type p)) @ 0x2C # ?m4"
  let ?m2 = "property ''name'' (QuoteJSONString (photo_name p)) @ 0x2C # ?m3"
  let ?m1 = "property ''id'' (QuoteJSONString (photo_id p)) @ 0x2C # ?m2"
  have 6: "parse_members (Suc (Suc k)) ?m6 = Some ([(js ''dataUrl'', JStr (photo_dataUrl p))], r)"
    by (rule pm_last) (rule pv_string)
  have 5: "parse_members (Suc (Suc (Suc k))) ?m5
      = Some ([(js ''createdAt'', JNum (of_nat (unat (photo_createdAt p)))),
               (js ''dataUrl'', JStr (photo_dataUrl p))], r)"
    by (rule pm_more [OF pv_number 6]) simp
  have 4: "parse_members (Suc (Suc (Suc (Suc k)))) ?m4
      = Some ([(js ''size'', JNum (of_nat (unat (photo_size p)))),
               (js ''createdAt'', JNum (of_nat (unat (photo_createdAt p)))),
               (js ''dataUrl'', JStr (photo_dataUrl p))], r)"
    by (rule pm_more [OF pv_number 5]) simp
  have 3: "parse_members (Suc (Suc (Suc (Suc (Suc k))))) ?m3
      = Some ([(js ''type'', JStr (photo_type p)),
               (js ''size'', JNum (of_nat (unat (photo_size p)))),
               (js ''createdAt'', JNum (of_nat (unat (photo_createdAt p)))),
               (js ''dataUrl'', JStr (photo_dataUrl p))], r)"
    by (rule pm_more [OF pv_string 4])
  have 2: "parse_members (Suc (Suc (Suc (Suc (Suc (Suc k)))))) ?m2
      = Some ([(js ''name'', JStr (photo_name p)), (js ''type'', JStr (photo_type p)),
               (js ''size'', JNum (of_nat (unat (photo_size p)))),
               (js ''createdAt'', JNum (of_nat (unat (photo_createdAt p)))),
               (js ''dataUrl'', JStr (photo_dataUrl p))], r)"
    by (rule pm_more [OF pv_string 3])
  have 1: "parse_members (Suc (Suc (Suc (Suc (Suc (Suc (Suc k))))))) ?m1
      = Some ([(js ''id'', JStr (photo_id p)),
               (js ''name'', JStr (photo_name p)), (js ''type'', JStr (photo_type p)),
               (js ''size'', JNum (of_nat (unat (photo_size p)))),
               (js ''createdAt'', JNum (of_nat (unat (photo_createdAt p)))),
               (js ''dataUrl'', JStr (photo_dataUrl p))], r)"
    by (rule pm_more [OF pv_string 2])
  obtain t where t: "?m1 = 0x22 # t"
    using property_hd [of "''id''" "QuoteJSONString (photo_id p)"] by auto
  have "parse_value (Suc (Suc (Suc (Suc (Suc (Suc (Suc (Suc k)))))))) (0x7B # ?m1)
      = Some (photo_json p, r)"
    using 1 unfolding t
    by (simp add: skip_ws_id is_ws_def photo_json_def del: parse_members.simps)
  then show ?thesis by (simp only: stringify_photo_unfold)
qed

lemma stringify_photo_hd: "\<exists>t. stringify_photo p = 0x7B # t"
  by (simp add: stringify_photo_def js_def)

lemma nat9_cases:
  assumes "\<And>k. n = Suc (Suc (Suc (Suc (Suc (Suc (Suc (Suc (Suc k)))))))) \<Longrightarrow> P"
    and "n < 9 \<Longrightarrow> P"
  shows P
proof (cases "n < 9")
  case True
  then show ?thesis by (rule assms(2))
next
  case False
  then have "n = Suc (Suc (Suc (Suc (Suc (Suc (Suc (Suc (Suc (n - 9)))))))))" by simp
  then show ?thesis by (rule assms(1))
qed

lemma pe_photos:
  "ps \<noteq> [] \<Longrightarrow> length ps + 8 \<le> n \<Longrightarrow>
   parse_elements n (join (js '','') (map stringify_photo ps) @ 0x5D # r)
     = Some (map photo_json ps, r)"
proof (induction ps arbitrary: n)
  case Nil
  then show ?case by simp
next
  case (Cons p ps)
  from Cons.prems obtain k where n: "n = Suc (Suc (Suc (Suc (Suc (Suc (Suc (Suc (Suc k))))))))"
    and k: "length ps \<le> k"
    by (cases n rule: nat9_cases) auto
  show ?case
  proof (cases ps)
    case Nil
    have "parse_value (Suc (Suc (Suc (Suc (Suc (Suc (Suc (Suc k))))))))
            (stringify_photo p @ 0x5D # r) = Some (photo_json p, 0x5D # r)"
      by (rule pv_photo)
    then show ?thesis
      unfolding n Nil
      by (simp add: skip_ws_id is_ws_def del: parse_value.simps)
  next
    case (Cons q qs)
    let ?rest = "join (js '','') (map stringify_photo (q # qs)) @ 0x5D # r"
    have v: "parse_value (Suc (Suc (Suc (Suc (Suc (Suc (Suc (Suc k))))))))
            (stringify_photo p @ 0x2C # ?rest) = Some (photo_json p, 0x2C # ?rest)"
      by (rule pv_photo)
    have "length (q # qs) + 8 \<le> Suc (Suc (Suc (Suc (Suc (Suc (Suc (Suc k)))))))"
      using k Cons by simp
    then have e: "parse_elements (Suc (Suc (Suc (Suc (Suc (Suc (Suc (Suc k)))))))) ?rest
        = Some (map photo_json (q # qs), r)"
      using Cons.IH [of "Suc (Suc (Suc (Suc (Suc (Suc (Suc (Suc k)))))))"] Cons by simp
    have "join (js '','') (map stringify_photo (p # q # qs)) @ 0x5D # r
        = stringify_photo p @ 0x2C # ?rest"
      by (simp add: js_def)
    then show ?thesis
      unfolding n Cons using v e
      by (simp add: skip_ws_id is_ws_def del: parse_value.simps parse_elements.simps join.simps)
         (simp add: skip_ws_id is_ws_def del: parse_value.simps join.simps)
  qed
qed

lemma stringify_photo_length: "8 \<le> length (stringify_photo p)"
  by (simp add: stringify_photo_def property_def QuoteJSONString_def js_def)

lemma join_length:
  "\<forall>x \<in> set xs. m \<le> length x \<Longrightarrow> m * length xs \<le> length (join sep xs)"
  by (induction sep xs rule: join.induct) (auto simp: algebra_simps)

lemma join_hd: "xs \<noteq> [] \<Longrightarrow> hd xs = c # t \<Longrightarrow> \<exists>t'. join sep xs = c # t'"
  by (induction sep xs rule: join.induct) auto

lemma JSON_parse_stringify: "JSON_parse (JSON_stringify ps) = Some (JArr (map photo_json ps))"
proof (cases "ps = []")
  case True
  have fuel: "2 * length (JSON_stringify ps) + 2 = Suc (2 * length (JSON_stringify ps) + 1)"
    by simp
  have str: "JSON_stringify ps = 0x5B # 0x5D # []"
    using True by (simp add: JSON_stringify_def js_def)
  have "parse_value (Suc (2 * length (JSON_stringify ps) + 1)) (0x5B # 0x5D # [])
      = Some (JArr [], [])"
    by (simp add: skip_ws_id is_ws_def)
  then have "parse_value (2 * length (JSON_stringify ps) + 2) (JSON_stringify ps)
      = Some (JArr [], [])"
    by (simp only: fuel) (simp only: str)
  then show ?thesis
    unfolding JSON_parse_def using True by (simp add: skip_ws_def)
next
  case False
  let ?es = "join (js '','') (map stringify_photo ps)"
  have str: "JSON_stringify ps = 0x5B # ?es @ [0x5D]"
    by (simp add: JSON_stringify_def js_def)
  have "8 * length (map stringify_photo ps) \<le> length ?es"
    by (rule join_length) (simp add: stringify_photo_length)
  then have len: "8 * length ps \<le> length ?es" by simp
  define n where "n = 2 * length (JSON_stringify ps) + 1"
  have fuel: "2 * length (JSON_stringify ps) + 2 = Suc n" by (simp add: n_def)
  have l: "length (JSON_stringify ps) = length ?es + 2" by (simp add: str)
  have "1 \<le> length ps" using False by (cases ps) simp_all
  moreover have "\<And>L E. 1 \<le> L \<Longrightarrow> 8 * L \<le> E \<Longrightarrow> L + 8 \<le> 2 * (E + 2) + (1::nat)"
    by arith
  ultimately have "length ps + 8 \<le> n"
    using len unfolding n_def l by blast
  then have pe: "parse_elements n (?es @ 0x5D # []) = Some (map photo_json ps, [])"
    using False by (intro pe_photos)
  obtain t where "stringify_photo (hd ps) = 0x7B # t"
    using stringify_photo_hd by blast
  then obtain t' where hd: "?es = 0x7B # t'"
    using join_hd [of "map stringify_photo ps" "0x7B" t "js '',''"] False
    by (auto simp: hd_map)
  have "parse_value (Suc n) (0x5B # ?es @ [0x5D]) = Some (JArr (map photo_json ps), [])"
    using pe unfolding hd
    by (simp add: skip_ws_id is_ws_def del: parse_elements.simps)
  then have "parse_value (2 * length (JSON_stringify ps) + 2) (JSON_stringify ps)
      = Some (JArr (map photo_json ps), [])"
    by (simp only: fuel) (simp only: str)
  then show ?thesis
    unfolding JSON_parse_def by (simp add: skip_ws_def)
qed

lemma as_int_of_nat: "n < 2 ^ 53 \<Longrightarrow> as_int (JNum (of_nat n)) = Some (int n)"
  by (simp add: as_int_def as_finite_def as_number_def number_value_nat)

lemma as_safe_of_nat: "as_safe (JNum (of_nat (unat (w :: safe)))) = Some w"
proof -
  have "unat w < 2 ^ 53" using unsigned_less [of w, where ?'a = nat] by simp
  then have "as_int (JNum (of_nat (unat w))) = Some (int (unat w))"
    by (rule as_int_of_nat)
  then show ?thesis
    by (simp add: as_safe_def)
qed

lemma as_safe_unsigned: "as_safe (JNum (unsigned (w :: safe))) = Some w"
  using as_safe_of_nat [of w] by simp

lemma decode_photo_json: "decode_photo (photo_json p) = Some p"
  by (simp add: decode_photo_def photo_json_def field_def as_string_def as_safe_unsigned)

lemma decode_list_photo_json: "decode_list decode_photo (map photo_json ps) = Some ps"
  by (induction ps) (simp_all add: decode_photo_json)

lemma JSON_stringify_nonempty: "JSON_stringify ps \<noteq> []"
  by (simp add: JSON_stringify_def js_def)

lemma loadEffect_stringify:
  "loadEffect (Storage (Some (JSON_stringify ps)) room) = Inr (Some ps)"
  by (simp add: loadEffect_def JSON_stringify_nonempty JSON_parse_stringify
      decode_list_photo_json)

lemma photos_saveEffect: "photos (saveEffect s) = photos s"
  by (simp add: saveEffect_def split: sum.splits)

section \<open>Local mode: persistence\<close>

lemma mount_photos:
  "mount st = Inr s' \<Longrightarrow>
   photos s' = (case loadEffect st of Inr (Some ps) \<Rightarrow> ps | _ \<Rightarrow> [])"
  by (auto simp: mount_def photos_saveEffect initial_def split: sum.splits option.splits)

lemma mount_stringify:
  "\<exists>s'. mount (Storage (Some (JSON_stringify ps)) room) = Inr s' \<and> photos s' = ps"
  by (simp add: mount_def loadEffect_stringify photos_saveEffect)

text \<open>
  Claim C5. When the save effect has written the serialized sequence (the \<open>setItem\<close> of
  the string has not thrown), the storage holds that string, the load effect reads the
  same sequence back from it, record for record and in order, and a component mounted on
  that storage has this sequence.
\<close>

theorem persistence_round_trip:
  assumes "setItem (JSON_stringify (photos s)) (storage s) = Inr st"
  shows "storage (saveEffect s) = st \<and>
         getItem st = Inr (Some (JSON_stringify (photos s))) \<and>
         loadEffect st = Inr (Some (photos s)) \<and>
         (\<exists>s'. mount st = Inr s' \<and> photos s' = photos s)"
proof -
  from assms obtain entry room where "storage s = Storage entry room"
    and st: "st = Storage (Some (JSON_stringify (photos s))) room"
    by (cases "storage s") (auto split: if_splits)
  show ?thesis
    using assms mount_stringify [of "photos s"]
    by (simp add: st saveEffect_def loadEffect_stringify)
qed

lemma state_b_fits: "setItem (JSON_stringify (photos state_b)) (storage state_b)
    = Inr (Storage (Some (JSON_stringify [photo_a])) 1000)"
  by code_simp

theorem persistence_round_trip_witness:
  "loadEffect (storage (saveEffect state_b)) = Inr (Some [photo_a])"
  using persistence_round_trip [OF state_b_fits]
  by (simp add: state_b_def)

lemma decode_list_length: "decode_list dec vs = Some ps \<Longrightarrow> length ps = length vs"
  by (induction vs arbitrary: ps) (auto split: option.splits)

lemma mount_entries: "entries (mount st) = stored_length st"
proof (cases "getItem st")
  case (Inl ex)
  then show ?thesis
    by (simp add: entries_def mount_def loadEffect_def stored_length_def photos_saveEffect
        initial_def)
next
  case (Inr entry)
  show ?thesis
  proof (cases entry)
    case None
    with Inr show ?thesis
      by (simp add: entries_def mount_def loadEffect_def stored_length_def photos_saveEffect
          initial_def)
  next
    case (Some raw)
    show ?thesis
    proof (cases "raw = []")
      case True
      with Inr Some show ?thesis
        by (simp add: entries_def mount_def loadEffect_def stored_length_def photos_saveEffect
            initial_def)
    next
      case False
      show ?thesis
      proof (cases "JSON_parse raw")
        case None
        with Inr Some False show ?thesis
          by (simp add: entries_def mount_def loadEffect_def stored_length_def
              photos_saveEffect initial_def)
      next
        case (Some v)
        with Inr \<open>entry = Some raw\<close> False show ?thesis
          by (cases v)
             (auto simp: entries_def mount_def loadEffect_def stored_length_def
               photos_saveEffect initial_def decode_list_length split: option.splits)
      qed
    qed
  qed
qed

lemma mount_length: "mount st = Inr s' \<Longrightarrow> length (photos s') = stored_length st"
  using mount_entries [of st] by (simp add: entries_def)

lemma mount_untyped:
  "mount st = Inl (Untyped v) \<Longrightarrow>
   \<exists>raw vs. getItem st = Inr (Some raw) \<and> JSON_parse raw = Some (JArr vs) \<and> v = JArr vs"
  unfolding mount_def loadEffect_def
  by (auto split: sum.splits option.splits if_splits json.splits)

lemma addFiles_cap:
  "length (photos s) \<le> MAX_STORED_IMAGES \<Longrightarrow>
   length (photos (snd (addFiles e fl s))) \<le> MAX_STORED_IMAGES"
  by (auto simp: addFiles_def Let_def min_def split: option.splits sum.splits)

text \<open>
  Claim C3, amended. \<open>addFiles\<close> keeps a sequence of at most 30 entries at most 30 long,
  \<open>removePhoto\<close> never lengthens the sequence, \<open>clearAll\<close> empties it and the save effect
  leaves it as it is. Mounting does not cut the stored array: whatever the storage holds,
  the mounted component holds as many entries as the array of the entry has (none when
  there is no entry, or no array in it), so it has at most 30 exactly when the stored
  array has. This holds as well when the array is outside the typed state, where the
  component holds the array as it was parsed. On the text that the save effect writes for
  a sequence, mounting gives that sequence back, of whatever length.
\<close>

theorem cap_preserved:
  "(length (photos s) \<le> MAX_STORED_IMAGES \<longrightarrow>
      length (photos (snd (addFiles e fl s))) \<le> MAX_STORED_IMAGES) \<and>
   length (photos (removePhoto i s)) \<le> length (photos s) \<and>
   photos (clearAll s) = [] \<and>
   photos (saveEffect s) = photos s \<and>
   entries (mount st) = stored_length st \<and>
   (entries (mount st) \<le> MAX_STORED_IMAGES \<longleftrightarrow> stored_length st \<le> MAX_STORED_IMAGES) \<and>
   (\<forall>s'. mount st = Inr s' \<longrightarrow> length (photos s') = stored_length st) \<and>
   (\<forall>v. mount st = Inl (Untyped v) \<longrightarrow>
      (\<exists>raw vs. getItem st = Inr (Some raw) \<and> JSON_parse raw = Some (JArr vs) \<and> v = JArr vs)) \<and>
   (\<exists>s'. mount (Storage (Some (JSON_stringify ps)) room) = Inr s' \<and> photos s' = ps)"
  using addFiles_cap [of s e fl] mount_length [of st] mount_entries [of st]
    mount_stringify [of ps room] mount_untyped [of st]
  by (simp add: removePhoto_def clearAll_def photos_saveEffect)

lemma stored_length_stringify:
  "stored_length (Storage (Some (JSON_stringify ps)) room) = length ps"
  by (simp add: stored_length_def JSON_stringify_nonempty JSON_parse_stringify)

lemma mount_name_first:
  "mount (Storage (Some name_first) 1000) = Inl (Untyped (JArr [JObj
     [(js ''name'', JStr (js ''x.png'')), (js ''id'', JStr (js ''a'')),
      (js ''type'', JStr (js ''image/png'')), (js ''size'', JNum 1),
      (js ''createdAt'', JNum 2), (js ''dataUrl'', JStr (js ''data:''))]]))"
  by code_simp

theorem cap_preserved_witness:
  "length (photos (snd (addFiles env_a (Some [file_ok]) state_a))) \<le> 30 \<and>
   (\<exists>s'. mount (Storage (Some (JSON_stringify [photo_a, photo_a])) 1000) = Inr s' \<and>
         photos s' = [photo_a, photo_a] \<and> length (photos s') = 2) \<and>
   entries (mount (Storage (Some name_first) 1000)) = 1 \<and>
   stored_length (Storage (Some name_first) 1000) = 1 \<and>
   JSON_parse name_first = Some (JArr [JObj
     [(js ''name'', JStr (js ''x.png'')), (js ''id'', JStr (js ''a'')),
      (js ''type'', JStr (js ''image/png'')), (js ''size'', JNum 1),
      (js ''createdAt'', JNum 2), (js ''dataUrl'', JStr (js ''data:''))]]) \<and>
   entries (mount (Storage None 0)) = 0"
  using cap_preserved [of state_a env_a "Some [file_ok]" "js ''a''"
      "Storage (Some (JSON_stringify [photo_a, photo_a])) 1000" "[photo_a, photo_a]" 1000]
    cap_preserved [of state_a env_a "Some [file_ok]" "js ''a''"
      "Storage (Some name_first) 1000" "[]" 0]
    cap_preserved [of state_a env_a "Some [file_ok]" "js ''a''" "Storage None 0" "[]" 0]
  by (auto simp: state_a_def MAX_STORED_IMAGES_def stored_length_stringify mount_name_first
      entries_def stored_length_def)

text \<open>
  Claim C3, as the specification states it, fails at Initialize: the load effect installs
  the parsed array as it is. Mounted on an entry that holds an array of 31 records, the
  component has 31 photos.
\<close>

theorem mount_over_cap_counterexample:
  "\<exists>s. mount (Storage (Some (JSON_stringify (replicate 31 photo_a))) 5242880) = Inr s \<and>
       length (photos s) = 31 \<and> \<not> length (photos s) \<le> MAX_STORED_IMAGES"
  using mount_stringify [of "replicate 31 photo_a" 5242880]
  by (auto simp: MAX_STORED_IMAGES_def)

text \<open>
  Claim C8. \<open>clearAll\<close> leaves the empty sequence and no selection, and after it the
  storage gives no entry; a component mounted on that storage has the empty sequence. The
  same holds after the save effect that follows \<open>clearAll\<close> in the running component,
  which writes the text of the empty array when the storage takes it.
\<close>

theorem clearAll_empties:
  "photos (clearAll s) = [] \<and> activeId (clearAll s) = None \<and>
   (\<forall>raw. getItem (storage (clearAll s)) \<noteq> Inr (Some raw)) \<and>
   (\<exists>s'. mount (storage (clearAll s)) = Inr s' \<and> photos s' = []) \<and>
   (\<exists>s'. mount (storage (saveEffect (clearAll s))) = Inr s' \<and> photos s' = [])"
proof (cases "storage s")
  case Denied
  then show ?thesis
    by (simp add: clearAll_def saveEffect_def mount_def loadEffect_def photos_saveEffect
        initial_def)
next
  case (Storage entry room)
  have a: "storage (clearAll s) = Storage None room"
    using Storage by (simp add: clearAll_def)
  have b: "storage (saveEffect (clearAll s)) = Storage None room \<or>
           storage (saveEffect (clearAll s)) = Storage (Some (JSON_stringify [])) room"
    using Storage by (simp add: clearAll_def saveEffect_def)
  have c: "\<exists>s'. mount (Storage None room) = Inr s' \<and> photos s' = []"
    by (simp add: mount_def loadEffect_def photos_saveEffect initial_def)
  from b c mount_stringify [of "[]" room]
  have "\<exists>s'. mount (storage (saveEffect (clearAll s))) = Inr s' \<and> photos s' = []"
    by auto
  with a c show ?thesis by (simp add: clearAll_def)
qed

theorem clearAll_empties_witness:
  "photos (clearAll state_b) = [] \<and> activeId (clearAll state_b) = None \<and>
   storage (clearAll state_b) = Storage None 1000"
  using clearAll_empties [of state_b]
  by (simp add: clearAll_def state_b_def)

section \<open>The byte-size formatter\<close>

lemma scale_1e21_GiB: "scale (10 ^ 21 * 2 ^ 30) 0 = (10 ^ 21, 3)"
  by (simp add: units_def)

lemma bit_length_1e21: "bit_length 1000000000000000000000 = 70"
  by simp

lemma binary64_1e21: "binary64 (10 ^ 21) = Some (10 ^ 21)"
  by (simp add: binary64_def round_half_even_def Let_def)

lemma binary64_2e21: "binary64 (2 * 10 ^ 21) = Some (2 * 10 ^ 21)"
  by (simp add: binary64_def round_half_even_def Let_def)

lemma binary64_1e22: "binary64 (10 ^ 22) = Some (10 ^ 22)"
  by (simp add: binary64_def round_half_even_def Let_def)

lemma show_nat_1e21: "show_nat 1000000000000000000000 = js ''1000000000000000000000''"
  by (simp add: show_nat.simps js_def)

lemma candidates_1e21: "candidates (10 ^ 21) 22 1 = [(1, 22)]"
  using binary64_1e21 binary64_2e21 by (simp add: candidates_def Let_def)

lemma candidates_1e21_next: "candidates (10 ^ 21) 23 1 = []"
  using binary64_1e22 by (simp add: candidates_def Let_def)

lemma shortest_1e21: "shortest (10 ^ 21) 22 [1..<17] = (1, 22, 1)"
proof -
  have "[1..<17] = 1 # [2..<17]" by (simp add: upt_conv_Cons)
  then show ?thesis using candidates_1e21 candidates_1e21_next by (simp add: closest_def)
qed

lemma digits_1e21: "length (show_nat (nat \<lfloor>(10 ^ 21 :: rat)\<rfloor>)) = 22"
  by (simp add: show_nat.simps)

lemma Number_toString_1e21: "Number_toString (Some (10 ^ 21)) = js ''1e+21''"
proof -
  have "Number_toString (Some (10 ^ 21)) =
      (let d = show_nat 1; e = show_nat (22 - 1) in
       if (1::nat) = 1 then d @ js ''e+'' @ e
       else take 1 d @ js ''.'' @ drop 1 d @ js ''e+'' @ e)"
    by (simp only: Number_toString_def option.case digits_1e21 shortest_1e21 prod.case)
  then show ?thesis by (simp add: show_nat.simps js_def)
qed

lemma toFixed_1e21: "toFixed (10 ^ 21) 1 = js ''1e+21''"
  using Number_toString_1e21 binary64_1e21 by (simp add: toFixed_def)

text \<open>
  Claim C10, as stated, fails on large finite inputs: at \<open>10^21 * 2^30\<close> bytes (a binary64
  value) the loop leaves \<open>10^21\<close> with the unit GB, \<open>toFixed(1)\<close> hands a value of that
  size to \<open>ToString\<close>, and the result is in exponential notation, with no fraction digit.
\<close>

theorem formatBytes_exponent_counterexample:
  "formatBytes (Finite (10 ^ 21 * 2 ^ 30)) = js ''1e+21 GB'' \<and> \<not> is_fixed 1 (js ''1e+21'')"
  using scale_1e21_GiB toFixed_1e21
  by (simp add: formatBytes_def units_def js_def is_fixed_def strip_sign_def is_digit_def)

declare scale.simps [simp del]

lemma scale_step: "1024 \<le> v \<and> i < length units - 1 \<Longrightarrow> scale v i = scale (v / 1024) (i + 1)"
  by (subst scale.simps) simp

lemma scale_stop:
  assumes "\<not> (1024 \<le> v \<and> i < length units - 1)"
  shows "scale v i = (v, i)"
  by (subst scale.simps) (simp only: assms if_False)

lemma scale_spec:
  "i \<le> 3 \<Longrightarrow> scale v i = (v', i') \<Longrightarrow> i' \<le> 3 \<and> i \<le> i' \<and> v' = v / 1024 ^ (i' - i)"
proof (induction v i rule: scale.induct)
  case (1 v i)
  show ?case
  proof (cases "1024 \<le> v \<and> i < length units - 1")
    case True
    then have i: "i < 3" by (simp add: units_def)
    from True "1.prems" have s: "scale (v / 1024) (i + 1) = (v', i')"
      by (simp add: scale_step)
    from "1.IH" [OF True _ s] i
    have r: "i' \<le> 3" "i + 1 \<le> i'" "v' = v / 1024 / 1024 ^ (i' - (i + 1))" by simp_all
    then have d: "i' - i = Suc (i' - (i + 1))" by simp
    from r show ?thesis unfolding d by simp
  next
    case False
    with "1.prems" have "v' = v" "i' = i"
      by (simp_all add: scale_stop)
    with "1.prems" show ?thesis by simp
  qed
qed

lemma strip_sign_digits:
  assumes "ds \<noteq> []" "\<forall>c \<in> set ds. is_digit c" "sg = [] \<or> sg = [0x2D]"
  shows "strip_sign (sg @ ds @ r) = ds @ r"
proof -
  obtain h t where ht: "ds = h # t" using assms(1) by (cases ds) auto
  then have "is_digit h" using assms(2) by simp
  then have h: "h \<noteq> 0x2D" by (auto simp: is_digit_def)
  from assms(3) show ?thesis
    using h by (auto simp: strip_sign_def ht)
qed

lemma is_fixed_int:
  assumes "ds \<noteq> []" "\<forall>c \<in> set ds. is_digit c" "sg = [] \<or> sg = [0x2D]"
  shows "is_fixed 0 (sg @ ds)"
proof -
  have st: "strip_sign (sg @ ds) = ds"
    using strip_sign_digits [OF assms, of "[]"] by simp
  have tw: "takeWhile is_digit ds = ds" "dropWhile is_digit ds = []"
    using assms(2) by simp_all
  show ?thesis
    unfolding is_fixed_def st Let_def tw using assms(1) by simp
qed

lemma is_fixed_frac:
  assumes "ds \<noteq> []" "\<forall>c \<in> set ds. is_digit c" "sg = [] \<or> sg = [0x2D]"
    and "length fs = f" "\<forall>c \<in> set fs. is_digit c" "0 < f"
  shows "is_fixed f (sg @ ds @ 0x2E # fs)"
proof -
  have st: "strip_sign (sg @ ds @ 0x2E # fs) = ds @ 0x2E # fs"
    by (rule strip_sign_digits [OF assms(1-3)])
  have nd: "\<not> is_digit 0x2E" by (simp add: is_digit_def)
  have tw: "takeWhile is_digit (ds @ 0x2E # fs) = ds"
    "dropWhile is_digit (ds @ 0x2E # fs) = 0x2E # fs"
    using takeWhile_digits [OF assms(2) nd] by simp_all
  have la: "list_all is_digit fs" using assms(5) by (simp add: list_all_iff)
  show ?thesis
    unfolding is_fixed_def st Let_def tw using assms(1,4,6) la by simp
qed

lemma toFixed_fixed0: "\<bar>v\<bar> < 10 ^ 21 \<Longrightarrow> is_fixed 0 (toFixed v 0)"
  using is_fixed_int [OF show_nat_nonempty show_nat_digits]
  by (simp add: toFixed_def Let_def js_def)

lemma toFixed_fixed1:
  assumes "\<bar>v\<bar> < 10 ^ 21"
  shows "is_fixed 1 (toFixed v 1)"
proof -
  define m where "m = show_nat (nat \<lfloor>\<bar>v\<bar> * 10 ^ 1 + 1 / 2\<rfloor>)"
  define m' where "m' = (if length m \<le> 1 then replicate (1 + 1 - length m) 48 @ m else m)"
  define sg :: jsstring where "sg = (if v < 0 then js ''-'' else [])"
  have md: "\<forall>c \<in> set m. is_digit c" and mne: "m \<noteq> []"
    by (simp_all add: m_def show_nat_digits show_nat_nonempty)
  have z: "is_digit 48" by (simp add: is_digit_def)
  have m'd: "\<forall>c \<in> set m'. is_digit c"
    using md z by (auto simp: m'_def)
  have len: "2 \<le> length m'"
    using mne by (cases m) (auto simp: m'_def Suc_le_eq)
  have tf: "toFixed v 1 = sg @ take (length m' - 1) m' @ 0x2E # drop (length m' - 1) m'"
    using assms by (simp add: toFixed_def Let_def m_def m'_def sg_def js_def)
  have "is_fixed 1 (sg @ take (length m' - 1) m' @ 0x2E # drop (length m' - 1) m')"
  proof (rule is_fixed_frac)
    show "take (length m' - 1) m' \<noteq> []" using len by auto
    show "\<forall>c \<in> set (take (length m' - 1) m'). is_digit c"
      using m'd by (meson in_set_takeD)
    show "sg = [] \<or> sg = [0x2D]" by (simp add: sg_def js_def)
    show "length (drop (length m' - 1) m') = 1" using len by simp
    show "\<forall>c \<in> set (drop (length m' - 1) m'). is_digit c"
      using m'd by (meson in_set_dropD)
    show "0 < (1::nat)" by simp
  qed
  then show ?thesis by (simp only: tf)
qed

text \<open>
  Claim C10, amended. \<open>formatBytes\<close> is total: at a Number that is not finite it returns
  the empty string; at a finite one its loop divides by 1024 at most three times, and the
  result is \<open>toFixed\<close> of the scaled value, a space and one of the units B, KB, MB, GB, with
  no fraction digit for B and one otherwise. Where the scaled value is below \<open>10^21\<close> in
  magnitude, the number is in fixed notation with exactly that many fraction digits (at
  \<open>10^21\<close> and above it is what \<open>ToString\<close> prints).
\<close>

theorem formatBytes_shape:
  "(\<not> isFinite b \<longrightarrow> formatBytes b = []) \<and>
   (\<forall>q. b = Finite q \<longrightarrow>
      (\<exists>v i. scale q 0 = (v, i) \<and> i \<le> 3 \<and> v = q / 1024 ^ i \<and>
         formatBytes b = toFixed v (if i = 0 then 0 else 1) @ js '' '' @ units ! i \<and>
         units ! i \<in> {js ''B'', js ''KB'', js ''MB'', js ''GB''} \<and>
         (units ! i = js ''B'' \<longleftrightarrow> i = 0) \<and>
         (\<bar>v\<bar> < 10 ^ 21 \<longrightarrow>
            is_fixed (if i = 0 then 0 else 1) (toFixed v (if i = 0 then 0 else 1)))))"
proof (intro conjI allI impI)
  assume "\<not> isFinite b"
  then show "formatBytes b = []" by (simp add: formatBytes_def)
next
  fix q assume b: "b = Finite q"
  obtain v i where s: "scale q 0 = (v, i)" by (cases "scale q 0")
  from scale_spec [OF _ s] have i: "i \<le> 3" and v: "v = q / 1024 ^ i" by simp_all
  have fb: "formatBytes b = toFixed v (if i = 0 then 0 else 1) @ js '' '' @ units ! i"
    using i by (simp add: formatBytes_def b s units_def)
  from i have "i = 0 \<or> i = 1 \<or> i = 2 \<or> i = 3" by auto
  then have u: "units ! i \<in> {js ''B'', js ''KB'', js ''MB'', js ''GB''}"
    and u0: "units ! i = js ''B'' \<longleftrightarrow> i = 0"
    by (auto simp: units_def js_def)
  have fx: "\<bar>v\<bar> < 10 ^ 21 \<longrightarrow>
      is_fixed (if i = 0 then 0 else 1) (toFixed v (if i = 0 then 0 else 1))"
    using toFixed_fixed0 [of v] toFixed_fixed1 [of v] by simp
  from s i v fb u u0 fx
  show "\<exists>v i. scale q 0 = (v, i) \<and> i \<le> 3 \<and> v = q / 1024 ^ i \<and>
         formatBytes b = toFixed v (if i = 0 then 0 else 1) @ js '' '' @ units ! i \<and>
         units ! i \<in> {js ''B'', js ''KB'', js ''MB'', js ''GB''} \<and>
         (units ! i = js ''B'' \<longleftrightarrow> i = 0) \<and>
         (\<bar>v\<bar> < 10 ^ 21 \<longrightarrow>
            is_fixed (if i = 0 then 0 else 1) (toFixed v (if i = 0 then 0 else 1)))"
    by blast
qed

lemma scale_5000000: "scale 5000000 0 = (5000000 / 1024 ^ 2, 2)"
  by (simp add: scale.simps units_def)

theorem formatBytes_shape_witness:
  "formatBytes NaN = [] \<and>
   is_fixed 1 (toFixed (5000000 / 1024 ^ 2) 1) \<and>
   formatBytes (Finite 5000000) = toFixed (5000000 / 1024 ^ 2) 1 @ js '' MB''"
proof -
  have a: "formatBytes NaN = []" using formatBytes_shape [of NaN] by simp
  from formatBytes_shape [of "Finite 5000000"]
  obtain v i where s: "scale 5000000 0 = (v, i)"
    and f: "formatBytes (Finite 5000000) = toFixed v (if i = 0 then 0 else 1) @ js '' '' @ units ! i"
    and x: "\<bar>v\<bar> < 10 ^ 21 \<longrightarrow> is_fixed (if i = 0 then 0 else 1) (toFixed v (if i = 0 then 0 else 1))"
    by blast
  from s scale_5000000 have vi: "v = 5000000 / 1024 ^ 2" "i = 2" by simp_all
  have "\<bar>(5000000 :: rat) / 1024 ^ 2\<bar> < 10 ^ 21" by simp
  with x vi have "is_fixed 1 (toFixed (5000000 / 1024 ^ 2) 1)" by simp
  moreover from f vi have "formatBytes (Finite 5000000) = toFixed (5000000 / 1024 ^ 2) 1 @ js '' MB''"
    by (simp add: units_def js_def)
  ultimately show ?thesis using a by simp
qed

section \<open>The bound on the parser's calls\<close>

text \<open>
  The result of the parser does not depend on the bound once the parse succeeds: a larger
  bound gives the same result, and twice the number of code units read is enough. So the
  bound of \<open>JSON_parse\<close> never turns a text of the grammar into a SyntaxError.
\<close>

lemma fuel_Suc:
  "(parse_value n s = Some a \<longrightarrow> parse_value (Suc n) s = Some a) \<and>
   (parse_elements n s = Some b \<longrightarrow> parse_elements (Suc n) s = Some b) \<and>
   (parse_members n s = Some c \<longrightarrow> parse_members (Suc n) s = Some c)"
proof (induction n arbitrary: s a b c)
  case 0
  show ?case by simp
next
  case (Suc n)
  have v: "parse_value (Suc n) s = Some a" if "parse_value n s = Some a" for s a
    using Suc that by blast
  have e: "parse_elements (Suc n) s = Some b" if "parse_elements n s = Some b" for s b
    using Suc that by blast
  have m: "parse_members (Suc n) s = Some c" if "parse_members n s = Some c" for s c
    using Suc that by blast
  have e': "map_option f (parse_elements (Suc n) s) = Some x"
    if "map_option f (parse_elements n s) = Some x" for f s and x :: "json \<times> jsstring"
    using that e by (cases "parse_elements n s") auto
  have m': "map_option f (parse_members (Suc n) s) = Some x"
    if "map_option f (parse_members n s) = Some x" for f s and x :: "json \<times> jsstring"
    using that m by (cases "parse_members n s") auto
  have e'': "map_option f (parse_elements (Suc n) s) = Some x"
    if "map_option f (parse_elements n s) = Some x" for f s and x :: "json list \<times> jsstring"
    using that e by (cases "parse_elements n s") auto
  have m'': "map_option f (parse_members (Suc n) s) = Some x"
    if "map_option f (parse_members n s) = Some x" for f s
      and x :: "(jsstring \<times> json) list \<times> jsstring"
    using that m by (cases "parse_members n s") auto
  have 1: "parse_value (Suc n) s = Some a \<longrightarrow> parse_value (Suc (Suc n)) s = Some a"
  proof
    assume h: "parse_value (Suc n) s = Some a"
    show "parse_value (Suc (Suc n)) s = Some a"
      apply (subst parse_value.simps(2))
      using h [unfolded parse_value.simps(2)]
      by (auto split: list.splits if_splits simp: e m
          simp del: parse_value.simps parse_elements.simps parse_members.simps)
  qed
  have 2: "parse_elements (Suc n) s = Some b \<longrightarrow> parse_elements (Suc (Suc n)) s = Some b"
  proof
    assume h: "parse_elements (Suc n) s = Some b"
    show "parse_elements (Suc (Suc n)) s = Some b"
      apply (subst parse_elements.simps(2))
      using h [unfolded parse_elements.simps(2)]
      by (auto split: list.splits option.splits if_splits simp: v e
          simp del: parse_value.simps parse_elements.simps parse_members.simps)
  qed
  have 3: "parse_members (Suc n) s = Some c \<longrightarrow> parse_members (Suc (Suc n)) s = Some c"
  proof
    assume h: "parse_members (Suc n) s = Some c"
    show "parse_members (Suc (Suc n)) s = Some c"
      apply (subst parse_members.simps(2))
      using h [unfolded parse_members.simps(2)]
      by (auto split: list.splits option.splits if_splits simp: v m
          simp del: parse_value.simps parse_elements.simps parse_members.simps)
  qed
  from 1 2 3 show ?case by blast
qed

lemma fuel_mono:
  assumes "n \<le> m"
  shows "parse_value n s = Some a \<Longrightarrow> parse_value m s = Some a"
    and "parse_elements n s = Some b \<Longrightarrow> parse_elements m s = Some b"
    and "parse_members n s = Some c \<Longrightarrow> parse_members m s = Some c"
  using assms
proof (induction m)
  case 0
  { case 1 then show ?case by simp }
  { case 2 then show ?case by simp }
  { case 3 then show ?case by simp }
next
  case (Suc m)
  { case 1 then show ?case using Suc.IH(1) fuel_Suc [of m s a] by (cases "n = Suc m") auto }
  { case 2 then show ?case using Suc.IH(2) fuel_Suc [of m s _ b] by (cases "n = Suc m") auto }
  { case 3 then show ?case using Suc.IH(3) fuel_Suc [of m s _ _ c] by (cases "n = Suc m") auto }
qed

lemma skip_ws_length: "length (skip_ws s) \<le> length s"
  by (simp add: skip_ws_def length_dropWhile_le)

lemma parse_chars_length: "parse_chars s = Some (x, r) \<Longrightarrow> length r < length s"
proof (induction s arbitrary: x r rule: parse_chars.induct)
  case 1
  then show ?case by (simp add: parse_chars.simps)
next
  case (2 c cs)
  from "2.prems" show ?case
    apply (subst (asm) parse_chars.simps)
    apply (auto split: if_splits list.splits option.splits)
    using "2.IH" by fastforce+
qed

lemma takeWhile_dropWhile_length:
  "takeWhile P s \<noteq> [] \<Longrightarrow> length (dropWhile P s) < length s"
  by (cases s) (auto simp: length_dropWhile_le less_Suc_eq_le split: if_splits)

lemma parse_int_length: "parse_int s = Some (n, r) \<Longrightarrow> length r < length s"
  by (auto simp: parse_int_def Let_def takeWhile_dropWhile_length split: if_splits)

lemma parse_frac_length: "parse_frac s = Some (q, r) \<Longrightarrow> length r \<le> length s"
  by (auto simp: parse_frac_def Let_def split: list.splits if_splits
      intro: le_SucI length_dropWhile_le)

lemma parse_sign_length: "parse_sign s = (g, r) \<Longrightarrow> length r \<le> length s"
  by (auto simp: parse_sign_def split: list.splits if_splits)

lemma parse_exp_length: "parse_exp s = Some (x, r) \<Longrightarrow> length r \<le> length s"
proof -
  assume a: "parse_exp s = Some (x, r)"
  show ?thesis
  proof (cases s)
    case Nil
    with a show ?thesis by (simp add: parse_exp_def)
  next
    case (Cons c t)
    show ?thesis
    proof (cases "c = 0x65 \<or> c = 0x45")
      case False
      with a Cons show ?thesis by (simp add: parse_exp_def)
    next
      case True
      obtain g t' where g: "parse_sign t = (g, t')" by (cases "parse_sign t")
      with a Cons True have "r = dropWhile is_digit t'"
        by (auto simp: parse_exp_def Let_def split: if_splits)
      moreover have "length (dropWhile is_digit t') \<le> length t'" by (rule length_dropWhile_le)
      moreover have "length t' \<le> length t" using g by (rule parse_sign_length)
      ultimately show ?thesis using Cons by simp
    qed
  qed
qed

lemma parse_number_length: "parse_number s = Some (q, r) \<Longrightarrow> length r < length s"
proof -
  assume a: "parse_number s = Some (q, r)"
  define s1 where "s1 = (case s of [] \<Rightarrow> s | c # t \<Rightarrow> if c = 0x2D then t else s)"
  have l1: "length s1 \<le> length s" by (auto simp: s1_def split: list.splits)
  from a obtain ip s2 fp s3 ex where
    i: "parse_int s1 = Some (ip, s2)" and f: "parse_frac s2 = Some (fp, s3)"
    and e: "parse_exp s3 = Some (ex, r)"
    by (auto simp: parse_number_def s1_def split: list.splits if_splits option.splits)
  from parse_int_length [OF i] parse_frac_length [OF f] parse_exp_length [OF e] l1
  show ?thesis by simp
qed

lemmas parser_simps = parse_value.simps parse_elements.simps parse_members.simps

lemma fuel_needed:
  "(\<forall>s v r. parse_value n s = Some (v, r) \<longrightarrow>
      length r < length s \<and> parse_value (2 * (length s - length r)) s = Some (v, r)) \<and>
   (\<forall>s vs r. parse_elements n s = Some (vs, r) \<longrightarrow>
      length r < length s \<and> parse_elements (2 * (length s - length r)) s = Some (vs, r)) \<and>
   (\<forall>s ms r. parse_members n s = Some (ms, r) \<longrightarrow>
      length r < length s \<and> parse_members (2 * (length s - length r)) s = Some (ms, r))"
proof (induction n)
  case 0
  show ?case by simp
next
  case (Suc n)
  have V: "length r < length s \<and> parse_value (2 * (length s - length r)) s = Some (v, r)"
    if "parse_value n s = Some (v, r)" for s v r using Suc that by blast
  have E: "length r < length s \<and> parse_elements (2 * (length s - length r)) s = Some (vs, r)"
    if "parse_elements n s = Some (vs, r)" for s vs r using Suc that by blast
  have M: "length r < length s \<and> parse_members (2 * (length s - length r)) s = Some (ms, r)"
    if "parse_members n s = Some (ms, r)" for s ms r using Suc that by blast
  have 1: "length r < length s \<and> parse_value (2 * (length s - length r)) s = Some (v, r)"
    if h: "parse_value (Suc n) s = Some (v, r)" for s v r
  proof -
    from h obtain c cs where sk: "skip_ws s = c # cs"
      by (cases "skip_ws s") (auto simp del: parser_simps simp: parse_value.simps(2))
    have ls: "length cs < length s" using skip_ws_length [of s] sk by simp
    have lc: "length (skip_ws cs) \<le> length cs" by (rule skip_ws_length)
    consider (arr) d ds where "c = 0x5B" "skip_ws cs = d # ds" "d \<noteq> 0x5D"
      | (obj) d ds where "c = 0x7B" "skip_ws cs = d # ds" "d \<noteq> 0x7D"
      | (leaf) "\<not> (c = 0x5B \<and> (\<exists>d ds. skip_ws cs = d # ds \<and> d \<noteq> 0x5D))"
          "\<not> (c = 0x7B \<and> (\<exists>d ds. skip_ws cs = d # ds \<and> d \<noteq> 0x7D))"
      by blast
    then show ?thesis
    proof cases
      case arr
      from h sk arr obtain vs where pe: "parse_elements n cs = Some (vs, r)" and v: "v = JArr vs"
        by (auto simp del: parser_simps simp: parse_value.simps(2))
      from E [OF pe] have l: "length r < length cs"
        and p: "parse_elements (2 * (length cs - length r)) cs = Some (vs, r)" by simp_all
      from l ls obtain k where k: "2 * (length s - length r) = Suc k"
        by (cases "2 * (length s - length r)") auto
      with l ls have "2 * (length cs - length r) \<le> k" by arith
      from fuel_mono(2) [OF this p] have "parse_elements k cs = Some (vs, r)" .
      with sk arr v have "parse_value (Suc k) s = Some (v, r)" by simp
      with k l ls show ?thesis by simp
    next
      case obj
      from h sk obj obtain ms where pm: "parse_members n cs = Some (ms, r)" and v: "v = JObj ms"
        by (auto simp del: parser_simps simp: parse_value.simps(2))
      from M [OF pm] have l: "length r < length cs"
        and p: "parse_members (2 * (length cs - length r)) cs = Some (ms, r)" by simp_all
      from l ls obtain k where k: "2 * (length s - length r) = Suc k"
        by (cases "2 * (length s - length r)") auto
      with l ls have "2 * (length cs - length r) \<le> k" by arith
      from fuel_mono(3) [OF this p] have "parse_members k cs = Some (ms, r)" .
      with sk obj v have "parse_value (Suc k) s = Some (v, r)" by simp
      with k l ls show ?thesis by simp
    next
      case leaf
      have l: "length r < length s"
        using h sk ls lc leaf
        by (auto simp del: parser_simps simp: parse_value.simps(2) split: if_splits list.splits
            dest!: parse_chars_length parse_number_length)
      then obtain k where k: "2 * (length s - length r) = Suc k"
        by (cases "2 * (length s - length r)") auto
      have "parse_value (Suc k) s = parse_value (Suc n) s"
        using sk leaf by (auto split: list.splits)
      with h have "parse_value (Suc k) s = Some (v, r)" by simp
      with k l show ?thesis by simp
    qed
  qed
  have 2: "length r < length s \<and> parse_elements (2 * (length s - length r)) s = Some (vs, r)"
    if h: "parse_elements (Suc n) s = Some (vs, r)" for s vs r
  proof -
    from h obtain v r1 where pv: "parse_value n s = Some (v, r1)"
      by (cases "parse_value n s") (auto simp del: parser_simps simp: parse_elements.simps(2))
    from V [OF pv] have l1: "length r1 < length s"
      and p1: "parse_value (2 * (length s - length r1)) s = Some (v, r1)" by simp_all
    from h pv obtain c cs where sk: "skip_ws r1 = c # cs"
      by (cases "skip_ws r1") (auto simp del: parser_simps simp: parse_elements.simps(2))
    have lc: "length cs < length r1" using skip_ws_length [of r1] sk by simp
    from h pv sk consider (last) "c = 0x5D" "vs = [v]" "r = cs"
      | (more) vs' where "c \<noteq> 0x5D" "c = 0x2C" "parse_elements n cs = Some (vs', r)" "vs = v # vs'"
      by (auto simp del: parser_simps simp: parse_elements.simps(2) split: if_splits)
    then show ?thesis
    proof cases
      case last
      from l1 lc last obtain k where k: "2 * (length s - length r) = Suc k"
        by (cases "2 * (length s - length r)") auto
      with l1 lc last have "2 * (length s - length r1) \<le> k" by arith
      from fuel_mono(1) [OF this p1] have "parse_value k s = Some (v, r1)" .
      with sk last have "parse_elements (Suc k) s = Some (vs, r)" by simp
      with k l1 lc last show ?thesis by simp
    next
      case more
      from E [OF more(3)] have l: "length r < length cs"
        and p: "parse_elements (2 * (length cs - length r)) cs = Some (vs', r)" by simp_all
      from l1 lc l obtain k where k: "2 * (length s - length r) = Suc k"
        by (cases "2 * (length s - length r)") auto
      with l1 lc l have "2 * (length s - length r1) \<le> k" "2 * (length cs - length r) \<le> k"
        by arith+
      from fuel_mono(1) [OF this(1) p1] fuel_mono(2) [OF this(2) p]
      have "parse_value k s = Some (v, r1)" "parse_elements k cs = Some (vs', r)" .
      with sk more have "parse_elements (Suc k) s = Some (vs, r)" by simp
      with k l1 lc l show ?thesis by simp
    qed
  qed
  have 3: "length r < length s \<and> parse_members (2 * (length s - length r)) s = Some (ms, r)"
    if h: "parse_members (Suc n) s = Some (ms, r)" for s ms r
  proof -
    from h obtain q qs where sq: "skip_ws s = q # qs"
      by (cases "skip_ws s") (auto simp del: parser_simps simp: parse_members.simps(2))
    from h sq have q: "q = 0x22"
      by (auto simp del: parser_simps simp: parse_members.simps(2) split: if_splits)
    have lq: "length qs < length s" using skip_ws_length [of s] sq by simp
    from h sq q obtain key r0 where pc: "parse_chars qs = Some (key, r0)"
      by (cases "parse_chars qs") (auto simp del: parser_simps simp: parse_members.simps(2))
    have l0: "length r0 < length qs" using pc by (rule parse_chars_length)
    from h sq q pc obtain c cs where sc: "skip_ws r0 = c # cs"
      by (cases "skip_ws r0") (auto simp del: parser_simps simp: parse_members.simps(2))
    from h sq q pc sc have c: "c = 0x3A"
      by (auto simp del: parser_simps simp: parse_members.simps(2) split: if_splits)
    have lc: "length cs < length r0" using skip_ws_length [of r0] sc by simp
    from h sq q pc sc c obtain v r1 where pv: "parse_value n cs = Some (v, r1)"
      by (cases "parse_value n cs") (auto simp del: parser_simps simp: parse_members.simps(2))
    from V [OF pv] have l1: "length r1 < length cs"
      and p1: "parse_value (2 * (length cs - length r1)) cs = Some (v, r1)" by simp_all
    from h sq q pc sc c pv obtain e es where se: "skip_ws r1 = e # es"
      by (cases "skip_ws r1") (auto simp del: parser_simps simp: parse_members.simps(2))
    have le: "length es < length r1" using skip_ws_length [of r1] se by simp
    from h sq q pc sc c pv se consider (last) "e = 0x7D" "ms = [(key, v)]" "r = es"
      | (more) ms' where "e \<noteq> 0x7D" "e = 0x2C" "parse_members n es = Some (ms', r)"
          "ms = (key, v) # ms'"
      by (auto simp del: parser_simps simp: parse_members.simps(2) split: if_splits)
    then show ?thesis
    proof cases
      case last
      from lq l0 lc l1 le last obtain k where k: "2 * (length s - length r) = Suc k"
        by (cases "2 * (length s - length r)") auto
      with lq l0 lc l1 le last have "2 * (length cs - length r1) \<le> k" by arith
      from fuel_mono(1) [OF this p1] have "parse_value k cs = Some (v, r1)" .
      with sq q pc sc c se last have "parse_members (Suc k) s = Some (ms, r)" by simp
      with k lq l0 lc l1 le last show ?thesis by simp
    next
      case more
      from M [OF more(3)] have l: "length r < length es"
        and p: "parse_members (2 * (length es - length r)) es = Some (ms', r)" by simp_all
      from lq l0 lc l1 le l obtain k where k: "2 * (length s - length r) = Suc k"
        by (cases "2 * (length s - length r)") auto
      with lq l0 lc l1 le l
      have "2 * (length cs - length r1) \<le> k" "2 * (length es - length r) \<le> k"
        by arith+
      from fuel_mono(1) [OF this(1) p1] fuel_mono(3) [OF this(2) p]
      have "parse_value k cs = Some (v, r1)" "parse_members k es = Some (ms', r)" .
      with sq q pc sc c se more have "parse_members (Suc k) s = Some (ms, r)" by simp
      with k lq l0 lc l1 le l show ?thesis by simp
    qed
  qed
  from 1 2 3 show ?case by blast
qed

lemma fuel_enough:
  "parse_value n s = Some (v, r) \<Longrightarrow> parse_value (2 * length s + 2) s = Some (v, r)"
proof -
  assume h: "parse_value n s = Some (v, r)"
  with fuel_needed [of n]
  have "parse_value (2 * (length s - length r)) s = Some (v, r)" by blast
  moreover have "2 * (length s - length r) \<le> 2 * length s + 2" by simp
  ultimately show ?thesis by (rule fuel_mono(1) [rotated])
qed

lemma JSON_parse_fuel:
  assumes "parse_value n s = Some (v, r)" and "skip_ws r = []"
  shows "JSON_parse s = Some v"
proof -
  from fuel_enough [OF assms(1)] have "parse_value (2 * length s + 2) s = Some (v, r)" .
  then show ?thesis
    unfolding JSON_parse_def by (simp only: option.case prod.case assms(2) simp_thms if_True)
qed

lemma JSON_parse_complete:
  "JSON_parse s = None \<Longrightarrow> parse_value n s = Some (v, r) \<Longrightarrow> skip_ws r \<noteq> []"
  using JSON_parse_fuel [of n s v r] by auto

end
